theory Spec2Isabelle
  imports Main "HOL-Library.Word"
begin

section \<open>The asset download script \<open>docker_download_imgs.py\<close>\<close>

text \<open>
  The script is one module: two module-level variables (\<open>website\<close>, \<open>files\<close>), one call of
  \<open>os.makedirs("imgs")\<close> and one loop that calls \<open>urllib.request.urlretrieve\<close> once per entry
  of \<open>files\<close>. It handles no exception, so the first exception ends the run.

  The model has three layers: the operating system and the standard-library calls the
  script uses (a POSIX file system without symbolic links, permissions or capacity limits,
  and a network whose answers are an arbitrary function of the request), the loop of the
  script with \<open>website\<close> and \<open>files\<close> as parameters, and the script itself at its two
  constants.
\<close>

subsection \<open>File system\<close>

type_synonym byte = "8 word"

datatype node = Dir | File "byte list"

text \<open>An absolute, resolved path: the names from the root downwards.\<close>

type_synonym path = "string list"

type_synonym filesystem = "path \<Rightarrow> node option"

datatype oserror = FileExistsError | FileNotFoundError | NotADirectoryError | IsADirectoryError

text \<open>\<open>s.split('/')\<close>: the pieces of a path string between its separators.\<close>

fun split_sep :: "string \<Rightarrow> string list" where
  "split_sep [] = [[]]"
| "split_sep (c # cs) =
     (if c = CHR ''/'' then [] # split_sep cs
      else (c # hd (split_sep cs)) # tl (split_sep cs))"

text \<open>
  One step of path resolution from directory \<open>d\<close>: an empty component (between two
  separators) and \<open>.\<close> stay, \<open>..\<close> goes to the parent (the root is its own parent), a
  name goes down.
\<close>

definition step :: "path \<Rightarrow> string \<Rightarrow> path" where
  "step d c = (if c = [] \<or> c = ''.'' then d else if c = ''..'' then butlast d else d @ [c])"

text \<open>
  Walking a list of components: every component is looked up in a directory, so the place
  reached so far has to be an existing directory.
\<close>

fun walk :: "filesystem \<Rightarrow> path \<Rightarrow> string list \<Rightarrow> oserror + path" where
  "walk fs d [] = Inr d"
| "walk fs d (c # cs) =
     (case fs d of
        None \<Rightarrow> Inl FileNotFoundError
      | Some (File _) \<Rightarrow> Inl NotADirectoryError
      | Some Dir \<Rightarrow> walk fs (step d c) cs)"

text \<open>A path string starting with the separator is resolved from the root, any other from
  the working directory.\<close>

definition start_dir :: "path \<Rightarrow> string \<Rightarrow> path" where
  "start_dir cwd s = (if s \<noteq> [] \<and> hd s = CHR ''/'' then [] else cwd)"

text \<open>Resolution of a path string to an existing node (\<open>stat\<close>); the empty string names
  nothing.\<close>

definition namei :: "path \<Rightarrow> filesystem \<Rightarrow> string \<Rightarrow> oserror + path" where
  "namei cwd fs s =
     (if s = [] then Inl FileNotFoundError
      else case walk fs (start_dir cwd s) (split_sep s) of
             Inl e \<Rightarrow> Inl e
           | Inr d \<Rightarrow> (if fs d = None then Inl FileNotFoundError else Inr d))"

text \<open>\<open>os.path.exists\<close>: whether \<open>stat\<close> succeeds.\<close>

definition exists :: "path \<Rightarrow> filesystem \<Rightarrow> string \<Rightarrow> bool" where
  "exists cwd fs s = (case namei cwd fs s of Inl _ \<Rightarrow> False | Inr _ \<Rightarrow> True)"

text \<open>Resolution for a call that may create the last component: the directory that holds
  it, which has to exist, and the last component itself.\<close>

definition lookup_parent :: "path \<Rightarrow> filesystem \<Rightarrow> string \<Rightarrow> oserror + (path \<times> string)" where
  "lookup_parent cwd fs s =
     (if s = [] then Inl FileNotFoundError
      else case walk fs (start_dir cwd s) (butlast (split_sep s)) of
             Inl e \<Rightarrow> Inl e
           | Inr d \<Rightarrow>
               (case fs d of
                  None \<Rightarrow> Inl FileNotFoundError
                | Some (File _) \<Rightarrow> Inl NotADirectoryError
                | Some Dir \<Rightarrow> Inr (d, last (split_sep s))))"

text \<open>\<open>s.rstrip('/')\<close>.\<close>

definition rstrip_sep :: "string \<Rightarrow> string" where
  "rstrip_sep s = rev (dropWhile (\<lambda>c. c = CHR ''/'') (rev s))"

text \<open>\<open>open(s, 'wb')\<close>: the file that is created or truncated. A path that ends in
  \<open>.\<close> or \<open>..\<close>, or that names an existing directory, cannot be opened for writing. A
  path that ends in a separator names a directory, whether its last name exists or not: the
  call fails with \<open>IsADirectoryError\<close>, or with \<open>NotADirectoryError\<close> where the last name
  is a plain file.\<close>

definition open_wb :: "path \<Rightarrow> filesystem \<Rightarrow> string \<Rightarrow> oserror + path" where
  "open_wb cwd fs s =
     (if s \<noteq> [] \<and> last s = CHR ''/'' \<and> rstrip_sep s \<noteq> []
      then (case lookup_parent cwd fs (rstrip_sep s) of
              Inl e \<Rightarrow> Inl e
            | Inr (d, n) \<Rightarrow>
                (case fs (step d n) of
                   Some (File _) \<Rightarrow> Inl NotADirectoryError
                 | _ \<Rightarrow> Inl IsADirectoryError))
      else (case lookup_parent cwd fs s of
              Inl e \<Rightarrow> Inl e
            | Inr (d, n) \<Rightarrow>
                (if n = [] \<or> n = ''.'' \<or> n = ''..'' then Inl IsADirectoryError
                 else case fs (d @ [n]) of
                        Some Dir \<Rightarrow> Inl IsADirectoryError
                      | _ \<Rightarrow> Inr (d @ [n]))))"

text \<open>\<open>os.mkdir(s)\<close>: creates one directory in an existing directory and fails when the
  name is taken. Trailing separators do not count, except in a path of separators only,
  which is the root.\<close>

definition mkdir :: "path \<Rightarrow> string \<Rightarrow> filesystem \<Rightarrow> oserror option \<times> filesystem" where
  "mkdir cwd s fs =
     (case lookup_parent cwd fs (if rstrip_sep s = [] then s else rstrip_sep s) of
        Inl e \<Rightarrow> (Some e, fs)
      | Inr (d, n) \<Rightarrow>
          (if n = [] \<or> n = ''.'' \<or> n = ''..'' \<or> fs (d @ [n]) \<noteq> None
           then (Some FileExistsError, fs)
           else (None, fs(d @ [n] \<mapsto> Dir))))"

text \<open>
  \<open>posixpath.split(p)\<close>: the part up to the last separator and the part after it; trailing
  separators are stripped from the head unless it consists of separators only.
\<close>

definition psplit :: "string \<Rightarrow> string \<times> string" where
  "psplit p =
     (let tail = rev (takeWhile (\<lambda>c. c \<noteq> CHR ''/'') (rev p));
          head = rev (dropWhile (\<lambda>c. c \<noteq> CHR ''/'') (rev p))
      in (if head \<noteq> [] \<and> (\<exists>c \<in> set head. c \<noteq> CHR ''/'') then rstrip_sep head else head,
          tail))"

text \<open>The first lines of \<open>os.makedirs\<close>:
  \<^verbatim>\<open>head, tail = path.split(name)\<close>, and, \<^verbatim>\<open>if not tail\<close>, once more on the head.\<close>

definition split_name :: "string \<Rightarrow> string \<times> string" where
  "split_name name =
     (let (head, tail) = psplit name in if tail = [] then psplit head else (head, tail))"

lemma length_rstrip_sep: "length (rstrip_sep s) \<le> length s"
  unfolding rstrip_sep_def by (metis length_dropWhile_le length_rev)

lemma length_fst_psplit: "length (fst (psplit p)) \<le> length p"
proof -
  have "length (rev (dropWhile (\<lambda>c. c \<noteq> CHR ''/'') (rev p))) \<le> length p"
    by (metis length_dropWhile_le length_rev)
  moreover have "length (rstrip_sep (rev (dropWhile (\<lambda>c. c \<noteq> CHR ''/'') (rev p))))
      \<le> length (rev (dropWhile (\<lambda>c. c \<noteq> CHR ''/'') (rev p)))"
    by (rule length_rstrip_sep)
  ultimately show ?thesis
    by (simp add: psplit_def Let_def)
qed

lemma length_psplit: "length (fst (psplit p)) + length (snd (psplit p)) \<le> length p"
proof -
  let ?h = "rev (dropWhile (\<lambda>c. c \<noteq> CHR ''/'') (rev p))"
  let ?t = "rev (takeWhile (\<lambda>c. c \<noteq> CHR ''/'') (rev p))"
  have "length ?h + length ?t = length (rev p)"
    by (metis add.commute length_append length_rev takeWhile_dropWhile_id)
  moreover have "length (rstrip_sep ?h) \<le> length ?h"
    by (rule length_rstrip_sep)
  ultimately show ?thesis
    by (simp add: psplit_def Let_def)
qed

lemma split_name_shorter:
  assumes "snd (split_name name) \<noteq> []"
  shows "length (fst (split_name name)) < length name"
proof (cases "snd (psplit name) = []")
  case True
  then have eq: "split_name name = psplit (fst (psplit name))"
    by (simp add: split_name_def case_prod_unfold)
  have "length (fst (psplit (fst (psplit name)))) + length (snd (psplit (fst (psplit name))))
      \<le> length (fst (psplit name))"
    by (rule length_psplit)
  moreover have "length (fst (psplit name)) \<le> length name"
    by (rule length_fst_psplit)
  moreover have "0 < length (snd (psplit (fst (psplit name))))"
    using assms eq by simp
  ultimately show ?thesis
    unfolding eq by linarith
next
  case False
  then have eq: "split_name name = psplit name"
    by (simp add: split_name_def case_prod_unfold)
  have "length (fst (psplit name)) + length (snd (psplit name)) \<le> length name"
    by (rule length_psplit)
  moreover have "0 < length (snd (psplit name))"
    using False by simp
  ultimately show ?thesis
    unfolding eq by linarith
qed

text \<open>
  \<open>os.makedirs(name)\<close> with the default \<open>exist_ok=False\<close>: when the head is not empty and
  does not exist, it is created first, by the same function (a \<open>FileExistsError\<close> of that
  call is swallowed); then the leaf is created by \<open>os.mkdir\<close>, whose error is raised.
  \<^verbatim>\<open>
  head, tail = path.split(name)
  if not tail:
      head, tail = path.split(head)
  if head and tail and not path.exists(head):
      try:
          makedirs(head, exist_ok=exist_ok)
      except FileExistsError:
          pass
      if tail == curdir:
          return
  mkdir(name, mode)
  \<close>
\<close>

function makedirs :: "path \<Rightarrow> string \<Rightarrow> filesystem \<Rightarrow> oserror option \<times> filesystem" where
  "makedirs cwd name fs =
     (if fst (split_name name) \<noteq> [] \<and> snd (split_name name) \<noteq> []
         \<and> \<not> exists cwd fs (fst (split_name name))
      then (case makedirs cwd (fst (split_name name)) fs of
              (Some e, fs1) \<Rightarrow>
                (if e = FileExistsError
                 then (if snd (split_name name) = ''.'' then (None, fs1) else mkdir cwd name fs1)
                 else (Some e, fs1))
            | (None, fs1) \<Rightarrow>
                (if snd (split_name name) = ''.'' then (None, fs1) else mkdir cwd name fs1))
      else mkdir cwd name fs)"
  by pat_completeness auto
termination
  by (relation "measure (\<lambda>(cwd, name, fs). length name)") (auto simp: split_name_shorter)

declare makedirs.simps [simp del]

subsection \<open>Network and \<open>urlretrieve\<close>\<close>

datatype urlerror = URLError | HTTPError nat | ContentTooShortError

text \<open>
  What the remote side does with one request: it gives no usable response (no connection,
  or a status such as 404: \<open>urlopen\<close> raises), it serves a whole body, or the transfer
  ends after part of the body (the connection breaks while reading, or fewer bytes arrive
  than the response announced).
\<close>

datatype response = Refused urlerror | Served "byte list" | Interrupted "byte list" urlerror

text \<open>
  The exceptions that end a run, by the call they leave: \<open>os.makedirs\<close>, the network side
  of \<open>urlretrieve\<close>, the opening of the local file in \<open>urlretrieve\<close>.
\<close>

datatype error = DirectoryCreationError oserror | FetchError urlerror | WriteError oserror

text \<open>The surroundings of a run: the working directory of the process, the name that
  \<open>tempfile\<close> would pick for a new temporary file, and the response to the \<open>n\<close>-th
  request (counted from 0) as a function of its URL.\<close>

record env =
  cwd :: path
  tmp :: path
  net :: "nat \<Rightarrow> string \<Rightarrow> response"

text \<open>The state a run changes: the file system, and the URLs requested so far, oldest
  first.\<close>

record world =
  fs :: filesystem
  requests :: "string list"

text \<open>
  The local file of \<open>urlretrieve\<close>:
  \<^verbatim>\<open>
  if filename:
      tfp = open(filename, 'wb')
  else:
      tfp = tempfile.NamedTemporaryFile(delete=False)
  \<close>
  A temporary file is a new file: where the name at hand exists, no usable name is found.
\<close>

definition local_file :: "env \<Rightarrow> filesystem \<Rightarrow> string \<Rightarrow> oserror + path" where
  "local_file E fs0 filename =
     (if filename \<noteq> [] then open_wb (cwd E) fs0 filename
      else if fs0 (tmp E) = None then Inr (tmp E)
      else Inl FileExistsError)"

text \<open>
  \<open>urllib.request.urlretrieve(url, filename)\<close>: \<open>urlopen(url)\<close> comes first and raises before
  any local file is touched; then the local file is opened, the body is copied into it block
  by block, and a transfer that ended early raises after the blocks received so far have
  been written.
\<close>

definition urlretrieve :: "env \<Rightarrow> string \<Rightarrow> string \<Rightarrow> world \<Rightarrow> error option \<times> world" where
  "urlretrieve E url filename w =
     (let w1 = w\<lparr>requests := requests w @ [url]\<rparr> in
      case net E (length (requests w)) url of
        Refused e \<Rightarrow> (Some (FetchError e), w1)
      | Served body \<Rightarrow>
          (case local_file E (fs w1) filename of
             Inl e \<Rightarrow> (Some (WriteError e), w1)
           | Inr p \<Rightarrow> (None, w1\<lparr>fs := (fs w1)(p \<mapsto> File body)\<rparr>))
      | Interrupted part e \<Rightarrow>
          (case local_file E (fs w1) filename of
             Inl e' \<Rightarrow> (Some (WriteError e'), w1)
           | Inr p \<Rightarrow> (Some (FetchError e), w1\<lparr>fs := (fs w1)(p \<mapsto> File part)\<rparr>)))"

subsection \<open>The script\<close>

text \<open>\<open>posixpath.join(a, b)\<close>.\<close>

definition path_join :: "string \<Rightarrow> string \<Rightarrow> string" where
  "path_join a b =
     (if (b \<noteq> [] \<and> hd b = CHR ''/'') \<or> a = [] then b
      else if last a = CHR ''/'' then a @ b
      else a @ ''/'' @ b)"

definition website :: string where
  "website = ''https://monstermash.zone/imgs/''"

definition files :: "string list" where
  "files =
    [''example-antelope.jpg'',
     ''example-bird.jpg'',
     ''example-box.jpg'',
     ''example-dino.jpg'',
     ''example-dog.jpg'',
     ''example-heart.jpg'',
     ''example-chihuahua.jpg'',
     ''example-tree.jpg'',
     ''mouse_Left.jpg'',
     ''mouse_Wheel.jpg'',
     ''mouse_Right.jpg'',
     ''loading.jpg'',
     ''tutorial-mode1.mov'',
     ''tutorial-mode2.mov'',
     ''tutorial-mode3.mov'',
     ''help-drawmode.mov'',
     ''help-inflatemode.mov'',
     ''help-animatemode.mov'',
     ''help-redrawmode.mov'',
     ''icon_pause.svg'',
     ''icon_play.svg'',
     ''icon_new_ss2_white.svg'',
     ''icon_save_ss2_white.svg'',
     ''icon_open_ss2_white.svg'',
     ''rotate-gizmo.svg'',
     ''icon_trash_ss2_white.svg'',
     ''tutorial-play.svg'',
     ''key-box.svg'',
     ''key-rect.svg'',
     ''key-rectBig.svg'']"

text \<open>
  \<^verbatim>\<open>
  for f in files:
      url = website + f
      urllib.request.urlretrieve(url, os.path.join("imgs", f))
  \<close>
  with the two module-level variables as parameters. An exception leaves the loop.
\<close>

fun download_loop :: "env \<Rightarrow> string \<Rightarrow> string list \<Rightarrow> world \<Rightarrow> error option \<times> world" where
  "download_loop E site [] w = (None, w)"
| "download_loop E site (f # rest) w =
     (case urlretrieve E (site @ f) (path_join ''imgs'' f) w of
        (Some e, w') \<Rightarrow> (Some e, w')
      | (None, w') \<Rightarrow> download_loop E site rest w')"

text \<open>The statements of the module after the two assignments: \<open>os.makedirs("imgs")\<close>, then
  the loop.\<close>

definition run :: "env \<Rightarrow> string \<Rightarrow> string list \<Rightarrow> world \<Rightarrow> error option \<times> world" where
  "run E site manifest w =
     (case makedirs (cwd E) ''imgs'' (fs w) of
        (Some e, fs') \<Rightarrow> (Some (DirectoryCreationError e), w\<lparr>fs := fs'\<rparr>)
      | (None, fs') \<Rightarrow> download_loop E site manifest (w\<lparr>fs := fs'\<rparr>))"

text \<open>The script as it is.\<close>

definition main :: "env \<Rightarrow> world \<Rightarrow> error option \<times> world" where
  "main E w = run E website files w"

subsection \<open>Vocabulary of the properties\<close>

text \<open>A bare file name: not empty, not \<open>.\<close> or \<open>..\<close>, and without a path separator.\<close>

definition bare :: "string \<Rightarrow> bool" where
  "bare f = (f \<noteq> [] \<and> f \<noteq> ''.'' \<and> f \<noteq> ''..'' \<and> CHR ''/'' \<notin> set f)"

text \<open>The names of the entries of directory \<open>d\<close>.\<close>

definition ls :: "filesystem \<Rightarrow> path \<Rightarrow> string set" where
  "ls fs0 d = {n. fs0 (d @ [n]) \<noteq> None}"

text \<open>A file system is a tree: whatever exists lies in a directory that exists.\<close>

definition wf_fs :: "filesystem \<Rightarrow> bool" where
  "wf_fs fs0 = (\<forall>p n. fs0 (p @ [n]) \<noteq> None \<longrightarrow> fs0 p = Some Dir)"

text \<open>The state of the file system in which the loop of the script runs after a successful
  \<open>os.makedirs\<close>: the working directory and \<open>imgs\<close> are directories, and \<open>imgs\<close> holds no
  directory.\<close>

definition ready :: "path \<Rightarrow> filesystem \<Rightarrow> bool" where
  "ready c fs0 =
     (fs0 c = Some Dir \<and> fs0 (c @ [''imgs'']) = Some Dir
      \<and> (\<forall>n. fs0 (c @ [''imgs'', n]) \<noteq> Some Dir))"

subsection \<open>Example surroundings\<close>

text \<open>A file system with the root and a working directory \<open>/app\<close>, the same with \<open>/app/imgs\<close>
  present as a directory, as a plain file, and one without the working directory.\<close>

definition fs_fresh :: filesystem where
  "fs_fresh = [[] \<mapsto> Dir, [''app''] \<mapsto> Dir]"

definition fs_second :: filesystem where
  "fs_second = [[] \<mapsto> Dir, [''app''] \<mapsto> Dir, [''app'', ''imgs''] \<mapsto> Dir]"

definition fs_plain :: filesystem where
  "fs_plain = [[] \<mapsto> Dir, [''app''] \<mapsto> Dir, [''app'', ''imgs''] \<mapsto> File [1, 2, 3]]"

definition fs_nocwd :: filesystem where
  "fs_nocwd = [[] \<mapsto> Dir]"

text \<open>A server that serves every request with the same twelve bytes, one that refuses every
  request with status 404, and one whose second response (request number 1) ends after two
  bytes.\<close>

definition twelve :: "byte list" where
  "twelve = [1, 2, 3, 4, 5, 6, 7, 8, 9, 10, 11, 12]"

definition env_served :: env where
  "env_served = \<lparr>cwd = [''app''], tmp = [''tmp'', ''tmpfile''],
     net = (\<lambda>n url. Served twelve)\<rparr>"

definition env_refused :: env where
  "env_refused = \<lparr>cwd = [''app''], tmp = [''tmp'', ''tmpfile''],
     net = (\<lambda>n url. Refused (HTTPError 404))\<rparr>"

definition env_cut :: env where
  "env_cut = \<lparr>cwd = [''app''], tmp = [''tmp'', ''tmpfile''],
     net = (\<lambda>n url. if n = 1 then Interrupted [1, 2] ContentTooShortError else Served twelve)\<rparr>"

text \<open>A server whose second response is status 404, and one that serves the number of the
  request as the body.\<close>

definition env_404 :: env where
  "env_404 = \<lparr>cwd = [''app''], tmp = [''tmp'', ''tmpfile''],
     net = (\<lambda>n url. if n = 1 then Refused (HTTPError 404) else Served twelve)\<rparr>"

definition env_count :: env where
  "env_count = \<lparr>cwd = [''app''], tmp = [''tmp'', ''tmpfile''],
     net = (\<lambda>n url. Served [of_nat n])\<rparr>"

section \<open>Paths\<close>

lemma split_sep_nosep: "CHR ''/'' \<notin> set f \<Longrightarrow> split_sep f = [f]"
  by (induction f) auto

lemma split_sep_imgs: "CHR ''/'' \<notin> set f \<Longrightarrow> split_sep (''imgs/'' @ f) = [''imgs'', f]"
  by (simp add: split_sep_nosep)

lemma path_join_imgs: "f = [] \<or> hd f \<noteq> CHR ''/'' \<Longrightarrow> path_join ''imgs'' f = ''imgs/'' @ f"
  by (auto simp: path_join_def)

lemma bare_not_abs: "bare f \<Longrightarrow> hd f \<noteq> CHR ''/''"
  by (cases f) (auto simp: bare_def)

lemma step_imgs: "step d ''imgs'' = d @ [''imgs'']"
  by (simp add: step_def)

lemma split_name_imgs: "split_name ''imgs'' = ([], ''imgs'')"
  by (simp add: split_name_def psplit_def rstrip_sep_def)

lemma makedirs_imgs: "makedirs c ''imgs'' fs0 = mkdir c ''imgs'' fs0"
  by (subst makedirs.simps) (simp add: split_name_imgs)

lemma mkdir_imgs:
  "mkdir c ''imgs'' fs0 =
     (case fs0 c of
        None \<Rightarrow> (Some FileNotFoundError, fs0)
      | Some (File b) \<Rightarrow> (Some NotADirectoryError, fs0)
      | Some Dir \<Rightarrow>
          (if fs0 (c @ [''imgs'']) \<noteq> None then (Some FileExistsError, fs0)
           else (None, fs0(c @ [''imgs''] \<mapsto> Dir))))"
  by (simp add: mkdir_def rstrip_sep_def lookup_parent_def start_dir_def
      split: option.splits node.splits)

lemma open_wb_imgs:
  assumes "bare f"
  shows "open_wb c fs0 (path_join ''imgs'' f) =
     (case fs0 c of
        None \<Rightarrow> Inl FileNotFoundError
      | Some (File b) \<Rightarrow> Inl NotADirectoryError
      | Some Dir \<Rightarrow>
          (case fs0 (c @ [''imgs'']) of
             None \<Rightarrow> Inl FileNotFoundError
           | Some (File b) \<Rightarrow> Inl NotADirectoryError
           | Some Dir \<Rightarrow>
               (case fs0 (c @ [''imgs'', f]) of
                  Some Dir \<Rightarrow> Inl IsADirectoryError
                | _ \<Rightarrow> Inr (c @ [''imgs'', f]))))"
proof -
  have nosep: "CHR ''/'' \<notin> set f" and ne: "f \<noteq> []" "f \<noteq> ''.''" "f \<noteq> ''..''"
    using assms by (auto simp: bare_def)
  have pj: "path_join ''imgs'' f = ''imgs/'' @ f"
    using bare_not_abs [OF assms] by (simp add: path_join_imgs)
  have sp: "split_sep (''imgs/'' @ f) = [''imgs'', f]"
    using nosep by (rule split_sep_imgs)
  have "last (''imgs/'' @ f) \<in> set f"
    using ne(1) by simp
  then have nl: "last (''imgs/'' @ f) \<noteq> CHR ''/''"
    using nosep by metis
  show ?thesis
    unfolding pj open_wb_def lookup_parent_def sp
    using ne nl by (simp add: start_dir_def step_imgs split: option.splits node.splits)
qed

lemma open_wb_ready:
  "ready c fs0 \<Longrightarrow> bare f \<Longrightarrow> open_wb c fs0 (path_join ''imgs'' f) = Inr (c @ [''imgs'', f])"
  by (auto simp: open_wb_imgs ready_def split: option.splits node.splits)

lemma open_wb_not_dir: "open_wb c fs0 s = Inr p \<Longrightarrow> fs0 p \<noteq> Some Dir"
  by (auto simp: open_wb_def split: sum.splits prod.splits if_splits option.splits node.splits)

section \<open>One download\<close>

lemma path_join_imgs_nonempty: "path_join ''imgs'' f \<noteq> []"
  by (simp add: path_join_def)

lemma local_file_imgs:
  "local_file E fs0 (path_join ''imgs'' f) = open_wb (cwd E) fs0 (path_join ''imgs'' f)"
  by (simp add: local_file_def path_join_imgs_nonempty)

lemma local_file_not_dir: "local_file E fs0 s = Inr p \<Longrightarrow> fs0 p \<noteq> Some Dir"
  by (auto simp: local_file_def split: if_splits dest: open_wb_not_dir)

lemma urlretrieve_requests:
  "urlretrieve E url fn w = (r, w') \<Longrightarrow> requests w' = requests w @ [url]"
  by (auto simp: urlretrieve_def Let_def split: response.splits sum.splits)

lemma urlretrieve_dirs:
  "urlretrieve E url fn w = (r, w') \<Longrightarrow> (fs w' p = Some Dir) = (fs w p = Some Dir)"
  by (auto simp: urlretrieve_def Let_def split: response.splits sum.splits if_splits
      dest: local_file_not_dir)

lemma urlretrieve_ready:
  assumes "ready (cwd E) (fs w)" and "bare f"
  shows "urlretrieve E (site @ f) (path_join ''imgs'' f) w =
     (case net E (length (requests w)) (site @ f) of
        Refused e \<Rightarrow> (Some (FetchError e), w\<lparr>requests := requests w @ [site @ f]\<rparr>)
      | Served body \<Rightarrow>
          (None, w\<lparr>requests := requests w @ [site @ f],
                   fs := (fs w)(cwd E @ [''imgs'', f] \<mapsto> File body)\<rparr>)
      | Interrupted part e \<Rightarrow>
          (Some (FetchError e), w\<lparr>requests := requests w @ [site @ f],
                   fs := (fs w)(cwd E @ [''imgs'', f] \<mapsto> File part)\<rparr>))"
  using open_wb_ready [OF assms]
  by (simp add: urlretrieve_def local_file_imgs Let_def split: response.splits)

lemma ready_write: "ready c fs0 \<Longrightarrow> ready c (fs0(c @ [''imgs'', f] \<mapsto> File b))"
  by (auto simp: ready_def)

section \<open>The loop\<close>

lemma download_loop_append:
  "download_loop E site (xs @ ys) w =
     (case download_loop E site xs w of
        (Some e, w') \<Rightarrow> (Some e, w')
      | (None, w') \<Rightarrow> download_loop E site ys w')"
  by (induction xs arbitrary: w) (auto split: prod.splits option.splits)

text \<open>The requests of the loop are those of a prefix of the manifest, in its order, and of
  the whole manifest when the loop ends without an exception.\<close>

lemma download_loop_requests:
  "download_loop E site xs w = (r, w') \<Longrightarrow>
     \<exists>j\<le>length xs. requests w' = requests w @ map ((@) site) (take j xs)
        \<and> (r = None \<longrightarrow> j = length xs)"
proof (induction xs arbitrary: w)
  case Nil
  then show ?case by simp
next
  case (Cons f rest)
  obtain r1 w1 where u: "urlretrieve E (site @ f) (path_join ''imgs'' f) w = (r1, w1)"
    by (cases "urlretrieve E (site @ f) (path_join ''imgs'' f) w")
  have rq: "requests w1 = requests w @ [site @ f]"
    using u by (rule urlretrieve_requests)
  show ?case
  proof (cases r1)
    case None
    then have "download_loop E site rest w1 = (r, w')"
      using Cons.prems u by simp
    from Cons.IH [OF this] obtain j where j: "j \<le> length rest"
      "requests w' = requests w1 @ map ((@) site) (take j rest)"
      "r = None \<longrightarrow> j = length rest"
      by blast
    show ?thesis
      by (rule exI [of _ "Suc j"]) (use j rq in simp)
  next
    case (Some e)
    then have "r = Some e" "w' = w1"
      using Cons.prems u by simp_all
    then show ?thesis
      by (intro exI [of _ "Suc 0"]) (simp add: rq)
  qed
qed

text \<open>The loop neither creates nor removes a directory.\<close>

lemma download_loop_dirs:
  "download_loop E site xs w = (r, w') \<Longrightarrow> (fs w' p = Some Dir) = (fs w p = Some Dir)"
proof (induction xs arbitrary: w)
  case Nil
  then show ?case by simp
next
  case (Cons f rest)
  obtain r1 w1 where u: "urlretrieve E (site @ f) (path_join ''imgs'' f) w = (r1, w1)"
    by (cases "urlretrieve E (site @ f) (path_join ''imgs'' f) w")
  have d: "(fs w1 p = Some Dir) = (fs w p = Some Dir)"
    using u by (rule urlretrieve_dirs)
  show ?case
  proof (cases r1)
    case None
    then have "download_loop E site rest w1 = (r, w')"
      using Cons.prems u by simp
    from Cons.IH [OF this] d show ?thesis by simp
  next
    case (Some e)
    then have "w' = w1"
      using Cons.prems u by simp
    then show ?thesis using d by simp
  qed
qed

text \<open>Manifests of bare names: when every entry is served, the loop ends without an
  exception.\<close>

lemma download_loop_served:
  assumes "ready (cwd E) (fs w)" and "\<forall>f\<in>set xs. bare f"
    and "\<forall>i<length xs. \<exists>body. net E (length (requests w) + i) (site @ xs ! i) = Served body"
  shows "\<exists>w'. download_loop E site xs w = (None, w')"
  using assms
proof (induction xs arbitrary: w)
  case Nil
  then show ?case by simp
next
  case (Cons f rest)
  have bf: "bare f" using Cons.prems(2) by simp
  obtain body where b: "net E (length (requests w)) (site @ f) = Served body"
    using Cons.prems(3) by fastforce
  let ?w1 = "w\<lparr>requests := requests w @ [site @ f],
                fs := (fs w)(cwd E @ [''imgs'', f] \<mapsto> File body)\<rparr>"
  have u: "urlretrieve E (site @ f) (path_join ''imgs'' f) w = (None, ?w1)"
    using urlretrieve_ready [OF Cons.prems(1) bf, of site] b by simp
  have r1: "ready (cwd E) (fs ?w1)"
    using Cons.prems(1) by (simp add: ready_write)
  have s1: "\<forall>i<length rest. \<exists>body.
      net E (length (requests ?w1) + i) (site @ rest ! i) = Served body"
  proof (intro allI impI)
    fix i assume "i < length rest"
    then have "Suc i < length (f # rest)" by simp
    from Cons.prems(3) [rule_format, OF this]
    show "\<exists>body. net E (length (requests ?w1) + i) (site @ rest ! i) = Served body"
      by simp
  qed
  have "\<exists>w'. download_loop E site rest ?w1 = (None, w')"
    using Cons.IH [OF r1 _ s1] Cons.prems(2) by simp
  then show ?case using u by simp
qed

text \<open>Manifests of bare names: what a loop that ended without an exception has done.\<close>

lemma download_loop_success:
  assumes "download_loop E site xs w = (None, w')"
    and "ready (cwd E) (fs w)" and "\<forall>f\<in>set xs. bare f"
  shows "ready (cwd E) (fs w')
    \<and> (\<forall>p. p \<notin> (\<lambda>f. cwd E @ [''imgs'', f]) ` set xs \<longrightarrow> fs w' p = fs w p)
    \<and> (\<forall>f\<in>set xs. \<exists>b. fs w' (cwd E @ [''imgs'', f]) = Some (File b))
    \<and> (\<forall>i<length xs. \<exists>body.
          net E (length (requests w) + i) (site @ xs ! i) = Served body
          \<and> (xs ! i \<notin> set (drop (Suc i) xs) \<longrightarrow>
               fs w' (cwd E @ [''imgs'', xs ! i]) = Some (File body)))"
  using assms
proof (induction xs arbitrary: w)
  case Nil
  then show ?case by simp
next
  case (Cons f rest)
  have bf: "bare f" using Cons.prems(3) by simp
  let ?u = "urlretrieve E (site @ f) (path_join ''imgs'' f) w"
  have ur: "?u =
     (case net E (length (requests w)) (site @ f) of
        Refused e \<Rightarrow> (Some (FetchError e), w\<lparr>requests := requests w @ [site @ f]\<rparr>)
      | Served body \<Rightarrow>
          (None, w\<lparr>requests := requests w @ [site @ f],
                   fs := (fs w)(cwd E @ [''imgs'', f] \<mapsto> File body)\<rparr>)
      | Interrupted part e \<Rightarrow>
          (Some (FetchError e), w\<lparr>requests := requests w @ [site @ f],
                   fs := (fs w)(cwd E @ [''imgs'', f] \<mapsto> File part)\<rparr>))"
    by (rule urlretrieve_ready [OF Cons.prems(2) bf])
  obtain body where b: "net E (length (requests w)) (site @ f) = Served body"
    using Cons.prems(1) ur by (cases "net E (length (requests w)) (site @ f)") auto
  let ?w1 = "w\<lparr>requests := requests w @ [site @ f],
                fs := (fs w)(cwd E @ [''imgs'', f] \<mapsto> File body)\<rparr>"
  have u: "?u = (None, ?w1)" using ur b by simp
  have l1: "download_loop E site rest ?w1 = (None, w')"
    using Cons.prems(1) u by simp
  have r1: "ready (cwd E) (fs ?w1)"
    using Cons.prems(2) by (simp add: ready_write)
  have br: "\<forall>f\<in>set rest. bare f" using Cons.prems(3) by simp
  note ih = Cons.IH [OF l1 r1 br]
  have ih1: "ready (cwd E) (fs w')"
    and ih2: "\<And>p. p \<notin> (\<lambda>f. cwd E @ [''imgs'', f]) ` set rest \<Longrightarrow> fs w' p = fs ?w1 p"
    and ih3: "\<And>g. g \<in> set rest \<Longrightarrow> \<exists>b. fs w' (cwd E @ [''imgs'', g]) = Some (File b)"
    and ih4: "\<And>i. i < length rest \<Longrightarrow> \<exists>body.
          net E (length (requests ?w1) + i) (site @ rest ! i) = Served body
          \<and> (rest ! i \<notin> set (drop (Suc i) rest) \<longrightarrow>
               fs w' (cwd E @ [''imgs'', rest ! i]) = Some (File body))"
    using ih by blast+
  have c2: "\<forall>p. p \<notin> (\<lambda>f. cwd E @ [''imgs'', f]) ` set (f # rest) \<longrightarrow> fs w' p = fs w p"
  proof (intro allI impI)
    fix p assume p: "p \<notin> (\<lambda>f. cwd E @ [''imgs'', f]) ` set (f # rest)"
    then have "p \<notin> (\<lambda>f. cwd E @ [''imgs'', f]) ` set rest" and "p \<noteq> cwd E @ [''imgs'', f]"
      by auto
    then show "fs w' p = fs w p" using ih2 [of p] by simp
  qed
  have first: "f \<notin> set rest \<Longrightarrow> fs w' (cwd E @ [''imgs'', f]) = Some (File body)"
  proof -
    assume "f \<notin> set rest"
    then have "cwd E @ [''imgs'', f] \<notin> (\<lambda>f. cwd E @ [''imgs'', f]) ` set rest" by auto
    from ih2 [OF this] show ?thesis by simp
  qed
  have c3: "\<forall>g\<in>set (f # rest). \<exists>b. fs w' (cwd E @ [''imgs'', g]) = Some (File b)"
  proof
    fix g assume "g \<in> set (f # rest)"
    then consider "g \<in> set rest" | "g = f" "f \<notin> set rest" by auto
    then show "\<exists>b. fs w' (cwd E @ [''imgs'', g]) = Some (File b)"
      using ih3 first by cases auto
  qed
  have c4: "\<forall>i<length (f # rest). \<exists>body.
          net E (length (requests w) + i) (site @ (f # rest) ! i) = Served body
          \<and> ((f # rest) ! i \<notin> set (drop (Suc i) (f # rest)) \<longrightarrow>
               fs w' (cwd E @ [''imgs'', (f # rest) ! i]) = Some (File body))"
  proof (intro allI impI)
    fix i assume i: "i < length (f # rest)"
    show "\<exists>body.
          net E (length (requests w) + i) (site @ (f # rest) ! i) = Served body
          \<and> ((f # rest) ! i \<notin> set (drop (Suc i) (f # rest)) \<longrightarrow>
               fs w' (cwd E @ [''imgs'', (f # rest) ! i]) = Some (File body))"
    proof (cases i)
      case 0
      then show ?thesis using b first by simp
    next
      case (Suc k)
      then have "k < length rest" using i by simp
      from ih4 [OF this] show ?thesis using Suc by simp
    qed
  qed
  show ?case using ih1 c2 c3 c4 by blast
qed

section \<open>The run\<close>

lemma makedirs_imgs_eq:
  "makedirs c ''imgs'' fs0 =
     (if fs0 c = Some Dir \<and> fs0 (c @ [''imgs'']) = None
      then (None, fs0(c @ [''imgs''] \<mapsto> Dir))
      else (Some (case fs0 c of
                    None \<Rightarrow> FileNotFoundError
                  | Some (File b) \<Rightarrow> NotADirectoryError
                  | Some Dir \<Rightarrow> FileExistsError), fs0))"
  by (auto simp: makedirs_imgs mkdir_imgs split: option.splits node.splits)

lemma run_start:
  "fs w (cwd E) = Some Dir \<Longrightarrow> fs w (cwd E @ [''imgs'']) = None \<Longrightarrow>
     run E site manifest w
       = download_loop E site manifest (w\<lparr>fs := (fs w)(cwd E @ [''imgs''] \<mapsto> Dir)\<rparr>)"
  by (simp add: run_def makedirs_imgs_eq)

lemma run_refused:
  "\<not> (fs w (cwd E) = Some Dir \<and> fs w (cwd E @ [''imgs'']) = None) \<Longrightarrow>
     run E site manifest w
       = (Some (DirectoryCreationError
            (case fs w (cwd E) of
               None \<Rightarrow> FileNotFoundError
             | Some (File b) \<Rightarrow> NotADirectoryError
             | Some Dir \<Rightarrow> FileExistsError)), w)"
  by (auto simp: run_def makedirs_imgs_eq)

lemma download_loop_not_dce:
  "download_loop E site xs w = (r, w') \<Longrightarrow> r \<noteq> Some (DirectoryCreationError e)"
proof (induction xs arbitrary: w)
  case Nil
  then show ?case by auto
next
  case (Cons f rest)
  then show ?case
    by (auto simp: urlretrieve_def Let_def
        split: prod.splits option.splits response.splits sum.splits)
qed

lemma run_cases:
  assumes "run E site manifest w = (r, w')"
  shows "if fs w (cwd E) = Some Dir \<and> fs w (cwd E @ [''imgs'']) = None
         then download_loop E site manifest (w\<lparr>fs := (fs w)(cwd E @ [''imgs''] \<mapsto> Dir)\<rparr>)
                = (r, w')
              \<and> (\<forall>e. r \<noteq> Some (DirectoryCreationError e))
         else (\<exists>e. r = Some (DirectoryCreationError e)) \<and> w' = w"
proof (cases "fs w (cwd E) = Some Dir \<and> fs w (cwd E @ [''imgs'']) = None")
  case True
  then have "download_loop E site manifest (w\<lparr>fs := (fs w)(cwd E @ [''imgs''] \<mapsto> Dir)\<rparr>)
      = (r, w')"
    using assms run_start by simp
  moreover from this have "\<forall>e. r \<noteq> Some (DirectoryCreationError e)"
    using download_loop_not_dce by blast
  ultimately show ?thesis
    using True by simp
next
  case False
  then show ?thesis
    using assms run_refused [OF False, of site manifest] by auto
qed

lemma ready_after_mkdir:
  assumes "wf_fs fs0" and "fs0 c = Some Dir" and "fs0 (c @ [''imgs'']) = None"
  shows "ready c (fs0(c @ [''imgs''] \<mapsto> Dir))"
    and "ls (fs0(c @ [''imgs''] \<mapsto> Dir)) (c @ [''imgs'']) = {}"
proof -
  have none: "fs0 (c @ [''imgs'', n]) = None" for n
  proof (rule ccontr)
    assume "fs0 (c @ [''imgs'', n]) \<noteq> None"
    then have "fs0 ((c @ [''imgs'']) @ [n]) \<noteq> None" by simp
    then have "fs0 (c @ [''imgs'']) = Some Dir"
      using assms(1) unfolding wf_fs_def by blast
    then show False using assms(3) by simp
  qed
  show "ready c (fs0(c @ [''imgs''] \<mapsto> Dir))"
    using assms(2) none by (simp add: ready_def)
  show "ls (fs0(c @ [''imgs''] \<mapsto> Dir)) (c @ [''imgs'']) = {}"
    using none by (simp add: ls_def)
qed

lemma run_requests:
  assumes "run E site manifest w = (r, w')"
  shows "\<exists>j\<le>length manifest. requests w' = requests w @ map ((@) site) (take j manifest)
          \<and> (r = None \<longrightarrow> j = length manifest)
          \<and> ((\<exists>e. r = Some (DirectoryCreationError e)) \<longrightarrow> j = 0)"
proof (cases "fs w (cwd E) = Some Dir \<and> fs w (cwd E @ [''imgs'']) = None")
  case True
  let ?w1 = "w\<lparr>fs := (fs w)(cwd E @ [''imgs''] \<mapsto> Dir)\<rparr>"
  have l: "download_loop E site manifest ?w1 = (r, w')"
    and nd: "\<forall>e. r \<noteq> Some (DirectoryCreationError e)"
    using run_cases [OF assms] True by simp_all
  from download_loop_requests [OF l] obtain j where "j \<le> length manifest"
    "requests w' = requests ?w1 @ map ((@) site) (take j manifest)"
    "r = None \<longrightarrow> j = length manifest"
    by blast
  then show ?thesis using nd by (intro exI [of _ j]) simp
next
  case False
  then have "(\<exists>e. r = Some (DirectoryCreationError e)) \<and> w' = w"
    using run_cases [OF assms] by simp
  then show ?thesis by (intro exI [of _ 0]) auto
qed

text \<open>A run on a manifest of bare names, from a tree in which the working directory exists
  and \<open>imgs\<close> does not, with every request served, ends without an exception.\<close>

lemma run_succeeds:
  assumes "wf_fs (fs w)" and "fs w (cwd E) = Some Dir" and "fs w (cwd E @ [''imgs'']) = None"
    and "\<forall>f\<in>set manifest. bare f"
    and "\<forall>i<length manifest. \<exists>body.
           net E (length (requests w) + i) (site @ manifest ! i) = Served body"
  shows "\<exists>w'. run E site manifest w = (None, w')"
proof -
  let ?w1 = "w\<lparr>fs := (fs w)(cwd E @ [''imgs''] \<mapsto> Dir)\<rparr>"
  have r1: "ready (cwd E) (fs ?w1)"
    using ready_after_mkdir(1) [OF assms(1-3)] by simp
  have s1: "\<forall>i<length manifest. \<exists>body.
           net E (length (requests ?w1) + i) (site @ manifest ! i) = Served body"
    using assms(5) by simp
  have "\<exists>w'. download_loop E site manifest ?w1 = (None, w')"
    by (rule download_loop_served [OF r1 assms(4) s1])
  then show ?thesis
    using run_start [OF assms(2,3)] by simp
qed

text \<open>What a run on a manifest of bare names that ended without an exception has done.\<close>

lemma run_success:
  assumes "wf_fs (fs w)" and "\<forall>f\<in>set manifest. bare f"
    and "run E site manifest w = (None, w')"
  shows "ls (fs w') (cwd E @ [''imgs'']) = set manifest"
    and "\<forall>i<length manifest. \<exists>body.
          net E (length (requests w) + i) (site @ manifest ! i) = Served body
          \<and> (manifest ! i \<notin> set (drop (Suc i) manifest) \<longrightarrow>
               fs w' (cwd E @ [''imgs'', manifest ! i]) = Some (File body))"
proof -
  let ?w1 = "w\<lparr>fs := (fs w)(cwd E @ [''imgs''] \<mapsto> Dir)\<rparr>"
  have pre: "fs w (cwd E) = Some Dir" "fs w (cwd E @ [''imgs'']) = None"
    using run_cases [OF assms(3)] by (auto split: if_splits)
  have l: "download_loop E site manifest ?w1 = (None, w')"
    using run_start [OF pre] assms(3) by simp
  have r1: "ready (cwd E) (fs ?w1)" and e1: "ls (fs ?w1) (cwd E @ [''imgs'']) = {}"
    using ready_after_mkdir [OF assms(1) pre] by simp_all
  note s = download_loop_success [OF l r1 assms(2)]
  have frame: "\<And>p. p \<notin> (\<lambda>f. cwd E @ [''imgs'', f]) ` set manifest \<Longrightarrow> fs w' p = fs ?w1 p"
    and files: "\<And>g. g \<in> set manifest \<Longrightarrow> \<exists>b. fs w' (cwd E @ [''imgs'', g]) = Some (File b)"
    using s by blast+
  show "ls (fs w') (cwd E @ [''imgs'']) = set manifest"
  proof (intro set_eqI iffI)
    fix n assume n: "n \<in> ls (fs w') (cwd E @ [''imgs''])"
    show "n \<in> set manifest"
    proof (rule ccontr)
      assume "n \<notin> set manifest"
      then have "cwd E @ [''imgs'', n] \<notin> (\<lambda>f. cwd E @ [''imgs'', f]) ` set manifest"
        by auto
      then have "fs w' (cwd E @ [''imgs'', n]) = fs ?w1 (cwd E @ [''imgs'', n])"
        by (rule frame)
      moreover have "n \<notin> ls (fs ?w1) (cwd E @ [''imgs''])"
        using e1 by simp
      ultimately show False using n by (simp add: ls_def)
    qed
  next
    fix n assume "n \<in> set manifest"
    from files [OF this] show "n \<in> ls (fs w') (cwd E @ [''imgs''])"
      by (auto simp: ls_def)
  qed
  show "\<forall>i<length manifest. \<exists>body.
          net E (length (requests w) + i) (site @ manifest ! i) = Served body
          \<and> (manifest ! i \<notin> set (drop (Suc i) manifest) \<longrightarrow>
               fs w' (cwd E @ [''imgs'', manifest ! i]) = Some (File body))"
    using s by simp
qed

section \<open>Directory creation\<close>

text \<open>
  C3. The destination directory is created exactly once, before the first fetch, and a run
  in which its creation fails (for example because the path exists as a plain file) signals
  a \<open>DirectoryCreationError\<close>, issues no request and writes no file.

  Creation succeeds exactly when the working directory exists and \<open>imgs\<close> does not. Then
  the rest of the run is the loop, started in the state in which \<open>imgs\<close> is already a
  directory and no request has been issued: the directory is there before the first fetch.
  No \<open>DirectoryCreationError\<close> is signalled then, and the directories at the end of the
  run, however it ends, are those of the start and \<open>imgs\<close>: the loop creates none.
  Otherwise a \<open>DirectoryCreationError\<close> is signalled and the state of the end is that of
  the start: no request has been added and the file system is the same.
\<close>

theorem directory_creation_failure:
  assumes "run E site manifest w = (r, w')"
  shows "(if fs w (cwd E) = Some Dir \<and> fs w (cwd E @ [''imgs'']) = None
          then download_loop E site manifest (w\<lparr>fs := (fs w)(cwd E @ [''imgs''] \<mapsto> Dir)\<rparr>)
                 = (r, w')
             \<and> fs (w\<lparr>fs := (fs w)(cwd E @ [''imgs''] \<mapsto> Dir)\<rparr>) (cwd E @ [''imgs''])
                 = Some Dir
             \<and> requests (w\<lparr>fs := (fs w)(cwd E @ [''imgs''] \<mapsto> Dir)\<rparr>) = requests w
             \<and> (\<forall>e. r \<noteq> Some (DirectoryCreationError e))
             \<and> (\<forall>p. (fs w' p = Some Dir) = (p = cwd E @ [''imgs''] \<or> fs w p = Some Dir))
          else (\<exists>e. r = Some (DirectoryCreationError e)) \<and> w' = w)
       \<and> (fs w (cwd E) = Some Dir \<and> (\<exists>b. fs w (cwd E @ [''imgs'']) = Some (File b))
            \<longrightarrow> r = Some (DirectoryCreationError FileExistsError) \<and> w' = w)"
proof (cases "fs w (cwd E) = Some Dir \<and> fs w (cwd E @ [''imgs'']) = None")
  case True
  let ?w1 = "w\<lparr>fs := (fs w)(cwd E @ [''imgs''] \<mapsto> Dir)\<rparr>"
  have l: "download_loop E site manifest ?w1 = (r, w')"
    and nd: "\<forall>e. r \<noteq> Some (DirectoryCreationError e)"
    using run_cases [OF assms] True by simp_all
  have "(fs w' p = Some Dir) = (p = cwd E @ [''imgs''] \<or> fs w p = Some Dir)" for p
    using download_loop_dirs [OF l, of p] by simp
  then show ?thesis using True l nd by simp
next
  case False
  have "run E site manifest w
       = (Some (DirectoryCreationError
            (case fs w (cwd E) of
               None \<Rightarrow> FileNotFoundError
             | Some (File b) \<Rightarrow> NotADirectoryError
             | Some Dir \<Rightarrow> FileExistsError)), w)"
    by (rule run_refused [OF False])
  then show ?thesis using assms False by auto
qed

theorem directory_creation_failure_witness:
  "run env_served ''http://h/'' [''a.jpg''] \<lparr>fs = fs_plain, requests = []\<rparr>
     = (Some (DirectoryCreationError FileExistsError), \<lparr>fs = fs_plain, requests = []\<rparr>)
   \<and> run env_served ''http://h/'' [''a.jpg''] \<lparr>fs = fs_fresh, requests = []\<rparr>
     = download_loop env_served ''http://h/'' [''a.jpg'']
         \<lparr>fs = fs_fresh([''app'', ''imgs''] \<mapsto> Dir), requests = []\<rparr>"
proof -
  let ?w = "\<lparr>fs = fs_plain, requests = []\<rparr>"
  let ?run = "run env_served ''http://h/'' [''a.jpg''] ?w"
  have h: "?run = (fst ?run, snd ?run)" by simp
  have c: "fs ?w (cwd env_served) = Some Dir
      \<and> (\<exists>b. fs ?w (cwd env_served @ [''imgs'']) = Some (File b))"
    by (simp add: fs_plain_def env_served_def)
  from directory_creation_failure [OF h] c
  have "fst ?run = Some (DirectoryCreationError FileExistsError) \<and> snd ?run = ?w"
    by blast
  then have first: "?run = (Some (DirectoryCreationError FileExistsError), ?w)"
    by (simp add: prod_eq_iff)
  let ?v = "\<lparr>fs = fs_fresh, requests = []\<rparr>"
  let ?run2 = "run env_served ''http://h/'' [''a.jpg''] ?v"
  have h2: "?run2 = (fst ?run2, snd ?run2)" by simp
  have c2: "fs ?v (cwd env_served) = Some Dir \<and> fs ?v (cwd env_served @ [''imgs'']) = None"
    by (simp add: fs_fresh_def env_served_def)
  from directory_creation_failure [OF h2] c2
  have "download_loop env_served ''http://h/'' [''a.jpg'']
          (?v\<lparr>fs := (fs ?v)(cwd env_served @ [''imgs''] \<mapsto> Dir)\<rparr>) = (fst ?run2, snd ?run2)"
    by simp
  then have second: "?run2 = download_loop env_served ''http://h/'' [''a.jpg'']
         \<lparr>fs = fs_fresh([''app'', ''imgs''] \<mapsto> Dir), requests = []\<rparr>"
    by (simp add: env_served_def)
  show ?thesis using first second by simp
qed

text \<open>
  C5. A second run against the same destination directory fails at the directory-creation
  step, before any fetch of the second run.

  Whatever the first run did after creating the directory (it may have ended with a fetch
  or write error), and whatever the manifest, the base URL and the network of the second
  run, the second run signals a \<open>DirectoryCreationError\<close> carrying \<open>FileExistsError\<close> and
  leaves the state as it found it.
\<close>

theorem second_run_fails:
  assumes "run E site manifest w = (r, w1)"
    and "\<forall>e. r \<noteq> Some (DirectoryCreationError e)"
    and "cwd E' = cwd E"
  shows "run E' site' manifest' w1 = (Some (DirectoryCreationError FileExistsError), w1)"
proof -
  have pre: "fs w (cwd E) = Some Dir \<and> fs w (cwd E @ [''imgs'']) = None"
    using run_cases [OF assms(1)] assms(2) by (auto split: if_splits)
  let ?w0 = "w\<lparr>fs := (fs w)(cwd E @ [''imgs''] \<mapsto> Dir)\<rparr>"
  have l: "download_loop E site manifest ?w0 = (r, w1)"
    using run_cases [OF assms(1)] pre by simp
  have "fs w1 (cwd E) = Some Dir"
    using download_loop_dirs [OF l, of "cwd E"] pre by simp
  moreover have "fs w1 (cwd E @ [''imgs'']) = Some Dir"
    using download_loop_dirs [OF l, of "cwd E @ [''imgs'']"] by simp
  ultimately have "\<not> (fs w1 (cwd E') = Some Dir \<and> fs w1 (cwd E' @ [''imgs'']) = None)"
    "fs w1 (cwd E') = Some Dir"
    using assms(3) by simp_all
  then show ?thesis
    using run_refused [of w1 E' site' manifest'] by simp
qed

theorem second_run_fails_witness:
  "fst (run env_refused ''http://h/'' [''a.jpg''] \<lparr>fs = fs_fresh, requests = []\<rparr>)
     = Some (FetchError (HTTPError 404))
   \<and> run env_served ''http://h/'' [''a.jpg'', ''b.jpg'']
       (snd (run env_refused ''http://h/'' [''a.jpg''] \<lparr>fs = fs_fresh, requests = []\<rparr>))
     = (Some (DirectoryCreationError FileExistsError),
        snd (run env_refused ''http://h/'' [''a.jpg''] \<lparr>fs = fs_fresh, requests = []\<rparr>))"
proof -
  let ?first = "run env_refused ''http://h/'' [''a.jpg''] \<lparr>fs = fs_fresh, requests = []\<rparr>"
  have h: "?first = (fst ?first, snd ?first)" by simp
  have r: "fst ?first = Some (FetchError (HTTPError 404))"
    by (simp add: run_def makedirs_imgs_eq env_refused_def fs_fresh_def urlretrieve_def)
  then have nd: "\<forall>e. fst ?first \<noteq> Some (DirectoryCreationError e)" by simp
  have c: "cwd env_served = cwd env_refused"
    by (simp add: env_served_def env_refused_def)
  show ?thesis
    using r second_run_fails [OF h nd c] by simp
qed

text \<open>
  C6. The directory-creation step creates the destination directory non-recursively: it
  creates only the final path component and does not create missing parent directories.

  \<open>os.makedirs\<close> is the recursive function, but the path of the script, \<open>imgs\<close>, has one
  component and no head, so that the call is the single \<open>os.mkdir("imgs")\<close>. Where the
  working directory exists and \<open>imgs\<close> does not, it succeeds and the file system after it
  is the one before it with the one directory \<open>imgs\<close> added to the working directory. In
  every other case it fails and changes nothing; in particular, where the working directory
  itself is missing, it fails with \<open>FileNotFoundError\<close> and creates nothing.
\<close>

theorem makedirs_imgs_not_recursive:
  "makedirs c ''imgs'' fs0 = mkdir c ''imgs'' fs0
   \<and> (fs0 c = Some Dir \<and> fs0 (c @ [''imgs'']) = None \<longrightarrow>
        makedirs c ''imgs'' fs0 = (None, fs0(c @ [''imgs''] \<mapsto> Dir)))
   \<and> (\<not> (fs0 c = Some Dir \<and> fs0 (c @ [''imgs'']) = None) \<longrightarrow>
        (\<exists>e. makedirs c ''imgs'' fs0 = (Some e, fs0)))
   \<and> (fs0 c = None \<longrightarrow> makedirs c ''imgs'' fs0 = (Some FileNotFoundError, fs0))"
  by (simp add: makedirs_imgs makedirs_imgs_eq [unfolded makedirs_imgs])

theorem makedirs_imgs_not_recursive_witness:
  "makedirs [''app''] ''imgs'' fs_fresh = (None, fs_fresh([''app'', ''imgs''] \<mapsto> Dir))
   \<and> makedirs [''app''] ''imgs'' fs_nocwd = (Some FileNotFoundError, fs_nocwd)"
proof -
  have a: "fs_fresh [''app''] = Some Dir \<and> fs_fresh ([''app''] @ [''imgs'']) = None"
    by (simp add: fs_fresh_def)
  have b: "fs_nocwd [''app''] = None" by (simp add: fs_nocwd_def)
  have "makedirs [''app''] ''imgs'' fs_fresh
      = (None, fs_fresh([''app''] @ [''imgs''] \<mapsto> Dir))"
    using makedirs_imgs_not_recursive [of "[''app'']" fs_fresh] a by blast
  moreover have "makedirs [''app''] ''imgs'' fs_nocwd = (Some FileNotFoundError, fs_nocwd)"
    using makedirs_imgs_not_recursive [of "[''app'']" fs_nocwd] b by blast
  ultimately show ?thesis by simp
qed

text \<open>The function itself is recursive: for a path of two components it creates both
  directories.\<close>

lemma makedirs_recursive_example:
  "makedirs [''app''] ''a/b'' fs_fresh
     = (None, fs_fresh([''app'', ''a''] \<mapsto> Dir, [''app'', ''a'', ''b''] \<mapsto> Dir))"
proof -
  have s2: "split_name ''a/b'' = (''a'', ''b'')" and s1: "split_name ''a'' = ([], ''a'')"
    by (simp_all add: split_name_def psplit_def rstrip_sep_def)
  have ne: "\<not> exists [''app''] fs_fresh ''a''"
    by (simp add: exists_def namei_def start_dir_def step_def fs_fresh_def)
  have a: "makedirs [''app''] ''a'' fs_fresh = (None, fs_fresh([''app'', ''a''] \<mapsto> Dir))"
    by (subst makedirs.simps)
      (simp add: s1 mkdir_def rstrip_sep_def lookup_parent_def start_dir_def fs_fresh_def)
  have b: "mkdir [''app''] ''a/b'' (fs_fresh([''app'', ''a''] \<mapsto> Dir))
      = (None, fs_fresh([''app'', ''a''] \<mapsto> Dir, [''app'', ''a'', ''b''] \<mapsto> Dir))"
    by (simp add: mkdir_def rstrip_sep_def lookup_parent_def start_dir_def step_def
        fs_fresh_def)
  show ?thesis
    by (subst makedirs.simps) (simp add: s2 ne a b)
qed

text \<open>
  C7. For an empty manifest, the run fetches zero files, still creates the destination
  directory, and reports success.

  No request is issued in any case; from a state in which the working directory exists and
  \<open>imgs\<close> does not, the run ends without an exception in the state of the start with the
  directory \<open>imgs\<close> added.
\<close>

theorem empty_manifest:
  "requests (snd (run E site [] w)) = requests w
   \<and> (fs w (cwd E) = Some Dir \<and> fs w (cwd E @ [''imgs'']) = None \<longrightarrow>
        run E site [] w = (None, w\<lparr>fs := (fs w)(cwd E @ [''imgs''] \<mapsto> Dir)\<rparr>))"
  by (simp add: run_def makedirs_imgs_eq)

theorem empty_manifest_witness:
  "run env_served ''http://h/'' [] \<lparr>fs = fs_fresh, requests = []\<rparr>
     = (None, \<lparr>fs = fs_fresh([''app'', ''imgs''] \<mapsto> Dir), requests = []\<rparr>)"
proof -
  let ?w = "\<lparr>fs = fs_fresh, requests = []\<rparr>"
  have "fs ?w (cwd env_served) = Some Dir \<and> fs ?w (cwd env_served @ [''imgs'']) = None"
    by (simp add: env_served_def fs_fresh_def)
  then have "run env_served ''http://h/'' [] ?w
      = (None, ?w\<lparr>fs := (fs ?w)(cwd env_served @ [''imgs''] \<mapsto> Dir)\<rparr>)"
    using empty_manifest [of env_served "''http://h/''" ?w] by blast
  then show ?thesis by (simp add: env_served_def)
qed

section \<open>Downloads\<close>

lemma wf_fs_fresh: "wf_fs fs_fresh"
  by (auto simp: wf_fs_def fs_fresh_def split: if_splits)

lemma open_wb_bare_target:
  "bare f \<Longrightarrow> open_wb c fs0 (path_join ''imgs'' f) = Inr p \<Longrightarrow> p = c @ [''imgs'', f]"
  by (auto simp: open_wb_imgs split: option.splits node.splits)

lemma urlretrieve_bare_frame:
  assumes "bare f" and "urlretrieve E url (path_join ''imgs'' f) w = (r, w')"
  shows "fs w' = fs w \<or> (\<exists>b. fs w' = (fs w)(cwd E @ [''imgs'', f] \<mapsto> File b))"
  using assms(2) open_wb_bare_target [OF assms(1)]
  by (auto simp: urlretrieve_def local_file_imgs Let_def split: response.splits sum.splits)

text \<open>Manifests of bare names: whatever the loop changes in the file system is a file
  directly in \<open>imgs\<close>, named by an entry of the manifest.\<close>

lemma download_loop_frame:
  assumes "download_loop E site xs w = (r, w')" and "\<forall>f\<in>set xs. bare f"
  shows "\<forall>p. fs w' p \<noteq> fs w p \<longrightarrow>
           (\<exists>f\<in>set xs. p = cwd E @ [''imgs'', f]) \<and> (\<exists>b. fs w' p = Some (File b))"
  using assms
proof (induction xs arbitrary: w)
  case Nil
  then show ?case by simp
next
  case (Cons f rest)
  have bf: "bare f" and br: "\<forall>f\<in>set rest. bare f" using Cons.prems(2) by simp_all
  obtain r1 w1 where u: "urlretrieve E (site @ f) (path_join ''imgs'' f) w = (r1, w1)"
    by (cases "urlretrieve E (site @ f) (path_join ''imgs'' f) w")
  have step: "fs w1 = fs w \<or> (\<exists>b. fs w1 = (fs w)(cwd E @ [''imgs'', f] \<mapsto> File b))"
    by (rule urlretrieve_bare_frame [OF bf u])
  have one: "\<forall>p. fs w1 p \<noteq> fs w p \<longrightarrow>
      p = cwd E @ [''imgs'', f] \<and> (\<exists>b. fs w1 p = Some (File b))"
    using step by (auto split: if_splits)
  show ?case
  proof (cases r1)
    case (Some e)
    then have "w' = w1" using Cons.prems(1) u by simp
    then show ?thesis using one by auto
  next
    case None
    then have l: "download_loop E site rest w1 = (r, w')"
      using Cons.prems(1) u by simp
    note ih = Cons.IH [OF l br]
    show ?thesis
    proof (intro allI impI)
      fix p assume ch: "fs w' p \<noteq> fs w p"
      show "(\<exists>g\<in>set (f # rest). p = cwd E @ [''imgs'', g]) \<and> (\<exists>b. fs w' p = Some (File b))"
      proof (cases "fs w' p = fs w1 p")
        case True
        then have "fs w1 p \<noteq> fs w p" using ch by simp
        then have "p = cwd E @ [''imgs'', f]" and "\<exists>b. fs w1 p = Some (File b)"
          using one by blast+
        then have "p = cwd E @ [''imgs'', f]" and "\<exists>b. fs w' p = Some (File b)"
          using True by simp_all
        then show ?thesis by simp
      next
        case False
        then have "(\<exists>g\<in>set rest. p = cwd E @ [''imgs'', g]) \<and> (\<exists>b. fs w' p = Some (File b))"
          using ih by blast
        then show ?thesis by auto
      qed
    qed
  qed
qed

lemma download_loop_ls:
  assumes "download_loop E site xs w = (None, w')"
    and "ready (cwd E) (fs w)" and "\<forall>f\<in>set xs. bare f"
  shows "ls (fs w') (cwd E @ [''imgs'']) = ls (fs w) (cwd E @ [''imgs'']) \<union> set xs"
proof -
  note s = download_loop_success [OF assms]
  have frame: "\<And>p. p \<notin> (\<lambda>f. cwd E @ [''imgs'', f]) ` set xs \<Longrightarrow> fs w' p = fs w p"
    and files: "\<And>g. g \<in> set xs \<Longrightarrow> \<exists>b. fs w' (cwd E @ [''imgs'', g]) = Some (File b)"
    using s by blast+
  show ?thesis
  proof (intro set_eqI iffI)
    fix n assume n: "n \<in> ls (fs w') (cwd E @ [''imgs''])"
    show "n \<in> ls (fs w) (cwd E @ [''imgs'']) \<union> set xs"
    proof (cases "n \<in> set xs")
      case True
      then show ?thesis by simp
    next
      case False
      then have "cwd E @ [''imgs'', n] \<notin> (\<lambda>f. cwd E @ [''imgs'', f]) ` set xs"
        by auto
      then have "fs w' (cwd E @ [''imgs'', n]) = fs w (cwd E @ [''imgs'', n])"
        by (rule frame)
      then show ?thesis using n by (simp add: ls_def)
    qed
  next
    fix n assume n: "n \<in> ls (fs w) (cwd E @ [''imgs'']) \<union> set xs"
    show "n \<in> ls (fs w') (cwd E @ [''imgs''])"
    proof (cases "n \<in> set xs")
      case True
      from files [OF this] show ?thesis by (auto simp: ls_def)
    next
      case False
      then have "cwd E @ [''imgs'', n] \<notin> (\<lambda>f. cwd E @ [''imgs'', f]) ` set xs"
        by auto
      then have "fs w' (cwd E @ [''imgs'', n]) = fs w (cwd E @ [''imgs'', n])"
        by (rule frame)
      then show ?thesis using n False by (simp add: ls_def)
    qed
  qed
qed

lemma ls_write: "ls (fs0(d @ [n] \<mapsto> v)) d = insert n (ls fs0 d)"
  by (auto simp: ls_def)

text \<open>
  C1. For every manifest and every filename in it, if the fetch of that filename fails
  (network error or non-success HTTP status such as 404), the run aborts immediately: no
  filename occurring after it in manifest order is fetched or written, so the files present
  in the destination directory are exactly the successfully fetched prefix of the manifest
  preceding the failing entry.

  As stated this fails in two ways. A transfer that breaks off after the response has begun
  leaves the part received in the file of the failing entry, which is then present; and an
  entry that is not a bare name, such as \<open>../a.jpg\<close>, is fetched into a file outside the
  destination directory.
\<close>

theorem fetch_failure_counterexample:
  "fst (run env_cut ''http://h/'' [''a.jpg'', ''b.jpg'', ''c.jpg''] \<lparr>fs = fs_fresh, requests = []\<rparr>)
     = Some (FetchError ContentTooShortError)
   \<and> fs (snd (run env_cut ''http://h/'' [''a.jpg'', ''b.jpg'', ''c.jpg'']
              \<lparr>fs = fs_fresh, requests = []\<rparr>)) [''app'', ''imgs'', ''b.jpg'']
     = Some (File [1, 2])
   \<and> fst (run env_404 ''http://h/'' [''../a.jpg'', ''b.jpg''] \<lparr>fs = fs_fresh, requests = []\<rparr>)
     = Some (FetchError (HTTPError 404))
   \<and> fs (snd (run env_404 ''http://h/'' [''../a.jpg'', ''b.jpg'']
              \<lparr>fs = fs_fresh, requests = []\<rparr>)) [''app'', ''a.jpg'']
     = Some (File twelve)
   \<and> ls (fs (snd (run env_404 ''http://h/'' [''../a.jpg'', ''b.jpg'']
              \<lparr>fs = fs_fresh, requests = []\<rparr>))) [''app'', ''imgs'']
     = {}"
  by (simp add: run_def makedirs_imgs_eq env_cut_def env_404_def fs_fresh_def urlretrieve_def
      local_file_def open_wb_def rstrip_sep_def lookup_parent_def start_dir_def step_def path_join_def ls_def)

text \<open>
  C1, amended. For a manifest of bare names, run where the working directory exists and
  \<open>imgs\<close> does not: if the entries before \<open>f\<close> are served and the fetch of \<open>f\<close> fails, the
  run ends there with a \<open>FetchError\<close>; the requests issued are those of the entries up to
  \<open>f\<close>, in order, and none of a later entry; and the files present in \<open>imgs\<close> are those
  of the entries before \<open>f\<close>, together with a partial file \<open>f\<close> exactly when the failure
  came after the response had begun.
\<close>

theorem fetch_failure_aborts:
  assumes "wf_fs (fs w)" and "fs w (cwd E) = Some Dir" and "fs w (cwd E @ [''imgs'']) = None"
    and "\<forall>g\<in>set pre. bare g" and "bare f"
    and "\<forall>i<length pre. \<exists>body.
           net E (length (requests w) + i) (site @ pre ! i) = Served body"
    and "net E (length (requests w) + length pre) (site @ f) = resp"
    and "\<forall>body. resp \<noteq> Served body"
  shows "\<exists>e w'. run E site (pre @ f # post) w = (Some (FetchError e), w')
           \<and> requests w' = requests w @ map ((@) site) (pre @ [f])
           \<and> ls (fs w') (cwd E @ [''imgs''])
               = (case resp of Interrupted part e' \<Rightarrow> insert f (set pre) | _ \<Rightarrow> set pre)"
proof -
  let ?w0 = "w\<lparr>fs := (fs w)(cwd E @ [''imgs''] \<mapsto> Dir)\<rparr>"
  have r0: "ready (cwd E) (fs ?w0)" and e0: "ls (fs ?w0) (cwd E @ [''imgs'']) = {}"
    using ready_after_mkdir [OF assms(1-3)] by simp_all
  have s0: "\<forall>i<length pre. \<exists>body.
           net E (length (requests ?w0) + i) (site @ pre ! i) = Served body"
    using assms(6) by simp
  obtain w1 where l1: "download_loop E site pre ?w0 = (None, w1)"
    using download_loop_served [OF r0 assms(4) s0] by blast
  have r1: "ready (cwd E) (fs w1)"
    using download_loop_success [OF l1 r0 assms(4)] by blast
  have ls1: "ls (fs w1) (cwd E @ [''imgs'']) = set pre"
    using download_loop_ls [OF l1 r0 assms(4)] e0 by simp
  have q1: "requests w1 = requests w @ map ((@) site) pre"
    using download_loop_requests [OF l1] by auto
  then have n1: "length (requests w1) = length (requests w) + length pre" by simp
  have whole: "run E site (pre @ f # post) w = download_loop E site (f # post) w1"
    using run_start [OF assms(2,3)] l1 by (simp add: download_loop_append)
  note u = urlretrieve_ready [OF r1 assms(5), of site, unfolded n1 assms(7)]
  show ?thesis
  proof (cases resp)
    case (Refused e)
    then have "run E site (pre @ f # post) w
        = (Some (FetchError e), w1\<lparr>requests := requests w1 @ [site @ f]\<rparr>)"
      using whole u by simp
    then show ?thesis using Refused q1 ls1 by simp
  next
    case (Served body)
    then show ?thesis using assms(8) by simp
  next
    case (Interrupted part e)
    then have "run E site (pre @ f # post) w
        = (Some (FetchError e), w1\<lparr>requests := requests w1 @ [site @ f],
             fs := (fs w1)(cwd E @ [''imgs'', f] \<mapsto> File part)\<rparr>)"
      using whole u by simp
    moreover have "ls ((fs w1)(cwd E @ [''imgs'', f] \<mapsto> File part)) (cwd E @ [''imgs''])
        = insert f (set pre)"
      using ls_write [of "fs w1" "cwd E @ [''imgs'']" f] ls1 by simp
    ultimately show ?thesis using Interrupted q1 by simp
  qed
qed

theorem fetch_failure_aborts_witness:
  "\<exists>e w'. run env_404 ''http://h/'' [''a.jpg'', ''b.jpg'', ''c.jpg'']
             \<lparr>fs = fs_fresh, requests = []\<rparr> = (Some (FetchError e), w')
     \<and> requests w' = [''http://h/a.jpg'', ''http://h/b.jpg'']
     \<and> ls (fs w') [''app'', ''imgs''] = {''a.jpg''}"
proof -
  let ?w = "\<lparr>fs = fs_fresh, requests = []\<rparr>"
  have 1: "wf_fs (fs ?w)" by (simp add: wf_fs_fresh)
  have 2: "fs ?w (cwd env_404) = Some Dir" "fs ?w (cwd env_404 @ [''imgs'']) = None"
    by (simp_all add: env_404_def fs_fresh_def)
  have 3: "\<forall>g\<in>set [''a.jpg'']. bare g" "bare ''b.jpg''"
    by (simp_all add: bare_def)
  have 4: "\<forall>i<length [''a.jpg'']. \<exists>body.
      net env_404 (length (requests ?w) + i) (''http://h/'' @ [''a.jpg''] ! i) = Served body"
    by (simp add: env_404_def)
  have 5: "net env_404 (length (requests ?w) + length [''a.jpg'']) (''http://h/'' @ ''b.jpg'')
      = Refused (HTTPError 404)"
    by (simp add: env_404_def)
  have 6: "\<forall>body. Refused (HTTPError 404) \<noteq> Served body" by simp
  from fetch_failure_aborts [OF 1 2 3 4 5 6, of "[''c.jpg'']"]
  show ?thesis by (simp add: env_404_def)
qed

text \<open>
  C2. For every non-empty manifest and reachable base URL, if the run succeeds, then the
  destination directory contains exactly one file per manifest entry, named identically to
  the entry, whose bytes equal the response body served for base_url + filename at fetch
  time.

  As stated this fails for an entry that is not a bare name (the run for \<open>../x.svg\<close>
  succeeds and leaves the destination directory empty, the file being written beside it)
  and for a name that occurs twice (one file, holding the body of the later fetch).
\<close>

theorem successful_run_counterexample:
  "fst (run env_served ''http://h/'' [''../x.svg''] \<lparr>fs = fs_fresh, requests = []\<rparr>) = None
   \<and> ls (fs (snd (run env_served ''http://h/'' [''../x.svg''] \<lparr>fs = fs_fresh, requests = []\<rparr>)))
        [''app'', ''imgs''] = {}
   \<and> fs (snd (run env_served ''http://h/'' [''../x.svg''] \<lparr>fs = fs_fresh, requests = []\<rparr>))
        [''app'', ''x.svg''] = Some (File twelve)
   \<and> fst (run env_count ''http://h/'' [''x.svg'', ''x.svg''] \<lparr>fs = fs_fresh, requests = []\<rparr>)
        = None
   \<and> net env_count 0 ''http://h/x.svg'' = Served [0]
   \<and> fs (snd (run env_count ''http://h/'' [''x.svg'', ''x.svg'']
              \<lparr>fs = fs_fresh, requests = []\<rparr>)) [''app'', ''imgs'', ''x.svg'']
        = Some (File [1])"
  by (simp add: run_def makedirs_imgs_eq env_served_def env_count_def fs_fresh_def
      urlretrieve_def local_file_def open_wb_def rstrip_sep_def lookup_parent_def start_dir_def step_def path_join_def ls_def)

text \<open>
  C2, amended. For every manifest of bare names, run in a file system that is a tree. Where
  the working directory exists, \<open>imgs\<close> does not and every request is served, the run
  succeeds. If the run succeeds, the names in the destination directory are exactly the
  entries of the manifest; every entry was served a body, and the file named by an entry
  holds the body served for its last occurrence; and if the entries are pairwise distinct
  there are as many files as entries, each holding the body served for its own entry.
\<close>

theorem successful_run_contents:
  assumes "wf_fs (fs w)" and "\<forall>f\<in>set manifest. bare f"
  shows "(fs w (cwd E) = Some Dir \<and> fs w (cwd E @ [''imgs'']) = None
          \<and> (\<forall>i<length manifest. \<exists>body.
                net E (length (requests w) + i) (site @ manifest ! i) = Served body)
          \<longrightarrow> (\<exists>w'. run E site manifest w = (None, w')))
       \<and> (\<forall>w'. run E site manifest w = (None, w') \<longrightarrow>
            ls (fs w') (cwd E @ [''imgs'']) = set manifest
            \<and> (\<forall>i<length manifest. \<exists>body.
                 net E (length (requests w) + i) (site @ manifest ! i) = Served body
                 \<and> (manifest ! i \<notin> set (drop (Suc i) manifest) \<longrightarrow>
                      fs w' (cwd E @ [''imgs'', manifest ! i]) = Some (File body)))
            \<and> (distinct manifest \<longrightarrow>
                 card (ls (fs w') (cwd E @ [''imgs''])) = length manifest
                 \<and> (\<forall>i<length manifest. \<exists>body.
                      net E (length (requests w) + i) (site @ manifest ! i) = Served body
                      \<and> fs w' (cwd E @ [''imgs'', manifest ! i]) = Some (File body))))"
proof (intro conjI allI impI)
  assume "fs w (cwd E) = Some Dir \<and> fs w (cwd E @ [''imgs'']) = None
          \<and> (\<forall>i<length manifest. \<exists>body.
                net E (length (requests w) + i) (site @ manifest ! i) = Served body)"
  then show "\<exists>w'. run E site manifest w = (None, w')"
    using run_succeeds [OF assms(1) _ _ assms(2)] by blast
next
  fix w' assume r: "run E site manifest w = (None, w')"
  note s = run_success [OF assms r]
  show "ls (fs w') (cwd E @ [''imgs'']) = set manifest" by (rule s(1))
  {
    fix i assume "i < length manifest"
    then show "\<exists>body. net E (length (requests w) + i) (site @ manifest ! i) = Served body
        \<and> (manifest ! i \<notin> set (drop (Suc i) manifest) \<longrightarrow>
             fs w' (cwd E @ [''imgs'', manifest ! i]) = Some (File body))"
      using s(2) by blast
  }
  assume dist: "distinct manifest"
  show "card (ls (fs w') (cwd E @ [''imgs''])) = length manifest"
    using s(1) dist by (simp add: distinct_card)
  fix i assume i: "i < length manifest"
  have "manifest ! i \<notin> set (drop (Suc i) manifest)"
    using dist i by (metis Cons_nth_drop_Suc distinct.simps(2) distinct_drop)
  then show "\<exists>body. net E (length (requests w) + i) (site @ manifest ! i) = Served body
      \<and> fs w' (cwd E @ [''imgs'', manifest ! i]) = Some (File body)"
    using s(2) i by blast
qed

theorem successful_run_contents_witness:
  "fst (run env_served ''http://h/'' [''x.svg''] \<lparr>fs = fs_fresh, requests = []\<rparr>) = None
   \<and> fs (snd (run env_served ''http://h/'' [''x.svg''] \<lparr>fs = fs_fresh, requests = []\<rparr>))
      [''app'', ''imgs'', ''x.svg''] = Some (File twelve)
   \<and> length twelve = 12
   \<and> ls (fs (snd (run env_served ''http://h/'' [''x.svg''] \<lparr>fs = fs_fresh, requests = []\<rparr>)))
      [''app'', ''imgs''] = {''x.svg''}"
proof -
  let ?w = "\<lparr>fs = fs_fresh, requests = []\<rparr>"
  let ?run = "run env_served ''http://h/'' [''x.svg''] ?w"
  have 1: "wf_fs (fs ?w)" by (simp add: wf_fs_fresh)
  have 2: "\<forall>f\<in>set [''x.svg'']. bare f" by (simp add: bare_def)
  note t = successful_run_contents [OF 1 2, of env_served "''http://h/''"]
  have pre: "fs ?w (cwd env_served) = Some Dir \<and> fs ?w (cwd env_served @ [''imgs'']) = None
          \<and> (\<forall>i<length [''x.svg'']. \<exists>body.
                net env_served (length (requests ?w) + i) (''http://h/'' @ [''x.svg''] ! i)
                  = Served body)"
    by (simp add: env_served_def fs_fresh_def)
  from t pre obtain w' where r: "?run = (None, w')" by blast
  then have 3: "?run = (None, snd ?run)" and 4: "fst ?run = None" by simp_all
  have "ls (fs (snd ?run)) (cwd env_served @ [''imgs'']) = set [''x.svg'']"
    and "\<forall>i<length [''x.svg'']. \<exists>body.
           net env_served (length (requests ?w) + i) (''http://h/'' @ [''x.svg''] ! i)
             = Served body
           \<and> ([''x.svg''] ! i \<notin> set (drop (Suc i) [''x.svg'']) \<longrightarrow>
                fs (snd ?run) (cwd env_served @ [''imgs'', [''x.svg''] ! i]) = Some (File body))"
    using t 3 by blast+
  then show ?thesis using 4 by (simp add: env_served_def twelve_def)
qed




lemma files_bare: "\<forall>f\<in>set files. bare f"
  by (simp add: files_def bare_def)

lemma main_succeeds:
  assumes "wf_fs (fs w)" and "fs w (cwd E) = Some Dir" and "fs w (cwd E @ [''imgs'']) = None"
    and "\<forall>i<length files. \<exists>body.
           net E (length (requests w) + i) (website @ files ! i) = Served body"
  shows "\<exists>w'. main E w = (None, w')"
  unfolding main_def by (rule run_succeeds [OF assms(1-3) files_bare assms(4)])

lemma main_served_fresh:
  "\<exists>w'. main env_served \<lparr>fs = fs_fresh, requests = []\<rparr> = (None, w')"
proof (rule main_succeeds)
  show "wf_fs (fs \<lparr>fs = fs_fresh, requests = []\<rparr>)"
    by (simp add: wf_fs_fresh)
qed (simp_all add: env_served_def fs_fresh_def)

text \<open>
  C9. Every filename in the hardcoded manifest is a bare file name containing no path
  separator and no \<open>..\<close> component, so every file written by the program lies directly
  inside the destination directory \<open>imgs\<close>.

  Whatever a run of the script changes in the file system, however the run ends, is the
  directory \<open>imgs\<close> in the working directory or a file directly in it that is named by an
  entry of the manifest; and after a run that succeeded in a file system that is a tree, the
  entries of \<open>imgs\<close> are exactly the names of the manifest, all of them files. A run in a
  tree where the working directory exists, \<open>imgs\<close> does not and every request is served,
  succeeds.
\<close>

theorem writes_stay_in_imgs:
  "(\<forall>f\<in>set files. bare f)
   \<and> (\<forall>E w r w' p. main E w = (r, w') \<and> fs w' p \<noteq> fs w p \<longrightarrow>
        p = cwd E @ [''imgs'']
        \<or> (\<exists>f\<in>set files. p = cwd E @ [''imgs'', f]) \<and> (\<exists>b. fs w' p = Some (File b)))
   \<and> (\<forall>E w w'. wf_fs (fs w) \<and> main E w = (None, w') \<longrightarrow>
        ls (fs w') (cwd E @ [''imgs'']) = set files
        \<and> (\<forall>f\<in>set files. \<exists>b. fs w' (cwd E @ [''imgs'', f]) = Some (File b)))
   \<and> (\<forall>E w. wf_fs (fs w) \<and> fs w (cwd E) = Some Dir \<and> fs w (cwd E @ [''imgs'']) = None
          \<and> (\<forall>i<length files. \<exists>body.
                net E (length (requests w) + i) (website @ files ! i) = Served body)
          \<longrightarrow> (\<exists>w'. main E w = (None, w')))"
proof (intro conjI allI impI)
  show b: "\<forall>f\<in>set files. bare f" by (rule files_bare)
  {
    fix E w r w' p
    assume a: "main E w = (r, w') \<and> fs w' p \<noteq> fs w p"
    then have run: "run E website files w = (r, w')" and ch: "fs w' p \<noteq> fs w p"
      by (simp_all add: main_def)
    let ?w1 = "w\<lparr>fs := (fs w)(cwd E @ [''imgs''] \<mapsto> Dir)\<rparr>"
    have pre: "fs w (cwd E) = Some Dir \<and> fs w (cwd E @ [''imgs'']) = None"
      using run_cases [OF run] ch by (auto split: if_splits)
    then have l: "download_loop E website files ?w1 = (r, w')"
      using run_cases [OF run] by simp
    show "p = cwd E @ [''imgs'']
          \<or> (\<exists>f\<in>set files. p = cwd E @ [''imgs'', f]) \<and> (\<exists>b. fs w' p = Some (File b))"
    proof (cases "fs w' p = fs ?w1 p")
      case True
      then have "p = cwd E @ [''imgs'']" using ch by (auto split: if_splits)
      then show ?thesis by simp
    next
      case False
      then show ?thesis using download_loop_frame [OF l b] by blast
    qed
  }
  fix E w w'
  assume a: "wf_fs (fs w) \<and> main E w = (None, w')"
  then have wf: "wf_fs (fs w)" and run: "run E website files w = (None, w')"
    by (simp_all add: main_def)
  show "ls (fs w') (cwd E @ [''imgs'']) = set files"
    by (rule run_success(1) [OF wf b run])
  let ?w1 = "w\<lparr>fs := (fs w)(cwd E @ [''imgs''] \<mapsto> Dir)\<rparr>"
  have pre: "fs w (cwd E) = Some Dir" "fs w (cwd E @ [''imgs'']) = None"
    using run_cases [OF run] by (auto split: if_splits)
  have l: "download_loop E website files ?w1 = (None, w')"
    using run_start [OF pre] run by simp
  have r1: "ready (cwd E) (fs ?w1)"
    using ready_after_mkdir(1) [OF wf pre] by simp
  show "\<forall>f\<in>set files. \<exists>b. fs w' (cwd E @ [''imgs'', f]) = Some (File b)"
    using download_loop_success [OF l r1 b] by blast
next
  fix E :: env and w :: world
  assume "wf_fs (fs w) \<and> fs w (cwd E) = Some Dir \<and> fs w (cwd E @ [''imgs'']) = None
          \<and> (\<forall>i<length files. \<exists>body.
                net E (length (requests w) + i) (website @ files ! i) = Served body)"
  then show "\<exists>w'. main E w = (None, w')"
    using main_succeeds [of w E] by simp
qed

theorem writes_stay_in_imgs_witness:
  "fst (main env_served \<lparr>fs = fs_fresh, requests = []\<rparr>) = None
   \<and> (\<exists>b. fs (snd (main env_served \<lparr>fs = fs_fresh, requests = []\<rparr>))
           [''app'', ''imgs'', ''loading.jpg''] = Some (File b))
   \<and> fs (snd (main env_served \<lparr>fs = fs_fresh, requests = []\<rparr>)) [''app'', ''imgs'']
       \<noteq> fs \<lparr>fs = fs_fresh, requests = []\<rparr> [''app'', ''imgs'']"
proof -
  let ?w = "\<lparr>fs = fs_fresh, requests = []\<rparr>"
  let ?m = "main env_served ?w"
  have wf: "wf_fs (fs ?w)" by (simp add: wf_fs_fresh)
  have pre0: "wf_fs (fs ?w) \<and> fs ?w (cwd env_served) = Some Dir
          \<and> fs ?w (cwd env_served @ [''imgs'']) = None
          \<and> (\<forall>i<length files. \<exists>body.
                net env_served (length (requests ?w) + i) (website @ files ! i) = Served body)"
    using wf by (simp add: env_served_def fs_fresh_def)
  note t = writes_stay_in_imgs [THEN conjunct2, THEN conjunct2]
  obtain w' where m: "?m = (None, w')"
    using t [THEN conjunct2, rule_format, OF pre0] by blast
  then have h: "?m = (None, snd ?m)" and n: "fst ?m = None" by simp_all
  have ld: "''loading.jpg'' \<in> set files" by (simp add: files_def)
  have "\<forall>f\<in>set files. \<exists>b. fs (snd ?m) (cwd env_served @ [''imgs'', f]) = Some (File b)"
    using t [THEN conjunct1] wf h by blast
  then have fl: "\<exists>b. fs (snd ?m) [''app'', ''imgs'', ''loading.jpg''] = Some (File b)"
    using ld by (auto simp: env_served_def)
  have "fs (snd ?m) [''app'', ''imgs''] = Some Dir"
  proof -
    have run: "run env_served website files ?w = (None, snd ?m)"
      using h by (simp add: main_def)
    have pre: "fs ?w (cwd env_served) = Some Dir" "fs ?w (cwd env_served @ [''imgs'']) = None"
      by (simp_all add: env_served_def fs_fresh_def)
    have "download_loop env_served website files
        (?w\<lparr>fs := (fs ?w)(cwd env_served @ [''imgs''] \<mapsto> Dir)\<rparr>) = (None, snd ?m)"
      using run_start [OF pre] run by simp
    from download_loop_dirs [OF this, of "[''app'', ''imgs'']"]
    show ?thesis by (simp add: env_served_def)
  qed
  then have "fs (snd ?m) [''app'', ''imgs''] \<noteq> fs ?w [''app'', ''imgs'']"
    by (simp add: fs_fresh_def)
  then show ?thesis using n fl by simp
qed

section \<open>The manifest of the script\<close>

lemma files_distinct: "distinct files"
  by (simp add: files_def)

lemma files_length: "length files = 30"
  by (simp add: files_def)

text \<open>
  C8. The 31 filenames in the hardcoded manifest are pairwise distinct, so within a single
  run no download ever overwrites the output file of an earlier manifest entry, and a
  successful run produces exactly 31 files.

  The manifest has 30 entries, not 31.
\<close>

theorem manifest_size_counterexample: "length files = 30 \<and> length files \<noteq> 31"
  by (simp add: files_length)

text \<open>
  C8, amended. The 30 filenames of the manifest are pairwise distinct, and so are the 30
  paths the loop opens. A run in a file system that is a tree, where the working directory
  exists, \<open>imgs\<close> does not and every request is served, succeeds; and after a run that
  succeeded there are exactly 30 entries in \<open>imgs\<close>, the file of each entry holding the body
  served for that entry: no download has overwritten the file of another.
\<close>

theorem manifest_distinct:
  "distinct files \<and> length files = 30
   \<and> distinct (map (path_join ''imgs'') files)
   \<and> (\<forall>E w. wf_fs (fs w) \<and> fs w (cwd E) = Some Dir \<and> fs w (cwd E @ [''imgs'']) = None
          \<and> (\<forall>i<30. \<exists>body.
                net E (length (requests w) + i) (website @ files ! i) = Served body)
          \<longrightarrow> (\<exists>w'. main E w = (None, w')))
   \<and> (\<forall>E w w'. wf_fs (fs w) \<and> main E w = (None, w') \<longrightarrow>
        card (ls (fs w') (cwd E @ [''imgs''])) = 30
        \<and> (\<forall>i<30. \<exists>body.
              net E (length (requests w) + i) (website @ files ! i) = Served body
              \<and> fs w' (cwd E @ [''imgs'', files ! i]) = Some (File body)))"
proof (intro conjI allI impI)
  show "distinct files" by (rule files_distinct)
  show "length files = 30" by (rule files_length)
  show "distinct (map (path_join ''imgs'') files)"
  proof -
    have "map (path_join ''imgs'') files = map ((@) ''imgs/'') files"
    proof (rule map_cong [OF refl])
      fix f assume "f \<in> set files"
      then have "bare f" using files_bare by blast
      then show "path_join ''imgs'' f = ''imgs/'' @ f"
        using bare_not_abs by (simp add: path_join_imgs)
    qed
    moreover have "distinct (map ((@) ''imgs/'') files)"
      using files_distinct by (simp only: distinct_map inj_on_def) simp
    ultimately show ?thesis by (simp only:)
  qed
next
  fix E :: env and w :: world
  assume "wf_fs (fs w) \<and> fs w (cwd E) = Some Dir \<and> fs w (cwd E @ [''imgs'']) = None
          \<and> (\<forall>i<30. \<exists>body.
                net E (length (requests w) + i) (website @ files ! i) = Served body)"
  then show "\<exists>w'. main E w = (None, w')"
    using main_succeeds [of w E] by (simp add: files_length)
next
  fix E w w'
  assume a: "wf_fs (fs w) \<and> main E w = (None, w')"
  then have wf: "wf_fs (fs w)" and run: "run E website files w = (None, w')"
    by (simp_all add: main_def)
  note s = run_success [OF wf files_bare run]
  show "card (ls (fs w') (cwd E @ [''imgs''])) = 30"
    using s(1) files_distinct files_length by (simp add: distinct_card)
  fix i :: nat assume "i < 30"
  then have i: "i < length files" by (simp add: files_length)
  have "files ! i \<notin> set (drop (Suc i) files)"
    using files_distinct i by (metis Cons_nth_drop_Suc distinct.simps(2) distinct_drop)
  then show "\<exists>body. net E (length (requests w) + i) (website @ files ! i) = Served body
      \<and> fs w' (cwd E @ [''imgs'', files ! i]) = Some (File body)"
    using s(2) i by blast
qed

theorem manifest_distinct_witness:
  "fst (main env_count \<lparr>fs = fs_fresh, requests = []\<rparr>) = None
   \<and> card (ls (fs (snd (main env_count \<lparr>fs = fs_fresh, requests = []\<rparr>))) [''app'', ''imgs''])
       = 30
   \<and> fs (snd (main env_count \<lparr>fs = fs_fresh, requests = []\<rparr>))
        [''app'', ''imgs'', ''example-bird.jpg''] = Some (File [1])"
proof -
  let ?w = "\<lparr>fs = fs_fresh, requests = []\<rparr>"
  let ?m = "main env_count ?w"
  have wf: "wf_fs (fs ?w)" by (simp add: wf_fs_fresh)
  have pre: "wf_fs (fs ?w) \<and> fs ?w (cwd env_count) = Some Dir
          \<and> fs ?w (cwd env_count @ [''imgs'']) = None
          \<and> (\<forall>i<30. \<exists>body.
                net env_count (length (requests ?w) + i) (website @ files ! i) = Served body)"
    using wf by (simp add: env_count_def fs_fresh_def)
  obtain w' where "?m = (None, w')"
    using manifest_distinct pre by blast
  then have h: "?m = (None, snd ?m)" and n: "fst ?m = None" by simp_all
  have c: "card (ls (fs (snd ?m)) (cwd env_count @ [''imgs''])) = 30"
    and e: "\<forall>i<30. \<exists>body.
              net env_count (length (requests ?w) + i) (website @ files ! i) = Served body
              \<and> fs (snd ?m) (cwd env_count @ [''imgs'', files ! i]) = Some (File body)"
    using manifest_distinct wf h by blast+
  have "files ! 1 = ''example-bird.jpg''" by (simp add: files_def)
  then have "fs (snd ?m) [''app'', ''imgs'', ''example-bird.jpg''] = Some (File [1])"
    using e [rule_format, of 1] by (simp add: env_count_def)
  then show ?thesis using n c by (simp add: env_count_def)
qed

text \<open>
  C10. The program's request behaviour is deterministic: any two runs construct the
  identical sequence of 31 target URLs (the same base URL prefix concatenated with the same
  filenames in the same order), independent of environment, arguments, or prior filesystem
  state.

  The list has 30 URLs, and how much of it a run constructs depends on the file system and
  on the network: a first run in which every request is served constructs all 30, a second
  run in the same place constructs none.
\<close>

theorem request_sequence_counterexample:
  "length (requests (snd (main env_served \<lparr>fs = fs_fresh, requests = []\<rparr>))) = 30
   \<and> requests (snd (main env_served \<lparr>fs = fs_second, requests = []\<rparr>)) = []"
proof -
  let ?w = "\<lparr>fs = fs_fresh, requests = []\<rparr>"
  let ?m = "main env_served ?w"
  obtain w' where "?m = (None, w')" using main_served_fresh by blast
  then have "run env_served website files ?w = (None, snd ?m)"
    by (simp add: main_def)
  from run_requests [OF this]
  have "requests (snd ?m) = map ((@) website) files" by auto
  then have a: "length (requests (snd ?m)) = 30" by (simp add: files_length)
  have b: "requests (snd (main env_served \<lparr>fs = fs_second, requests = []\<rparr>)) = []"
    by (simp add: main_def run_def makedirs_imgs_eq env_served_def fs_second_def)
  show ?thesis using a b by simp
qed

text \<open>
  C10, amended. The target URLs are fixed: the 30 strings that are the base URL followed by
  a filename of the manifest, in manifest order. Whatever the surroundings and the state
  before it, the requests of a run are a prefix of that list, in that order: empty when
  directory creation fails, at least the first URL when it does not, and the whole list
  when the run succeeds. A run in a file system that is a tree, where the working directory
  exists, \<open>imgs\<close> does not and every request is served, succeeds.
\<close>

theorem request_sequence:
  "length (map ((@) website) files) = 30
   \<and> (\<forall>E w r w'. main E w = (r, w') \<longrightarrow>
        (\<exists>j\<le>30. requests w' = requests w @ take j (map ((@) website) files)
           \<and> (r = None \<longrightarrow> j = 30)
           \<and> ((\<exists>e. r = Some (DirectoryCreationError e)) \<longrightarrow> j = 0)
           \<and> ((\<forall>e. r \<noteq> Some (DirectoryCreationError e)) \<longrightarrow> 1 \<le> j)))
   \<and> (\<forall>E w. wf_fs (fs w) \<and> fs w (cwd E) = Some Dir \<and> fs w (cwd E @ [''imgs'']) = None
          \<and> (\<forall>i<30. \<exists>body.
                net E (length (requests w) + i) (website @ files ! i) = Served body)
          \<longrightarrow> fst (main E w) = None)"
proof (intro conjI allI impI)
  show "length (map ((@) website) files) = 30" by (simp add: files_length)
next
  fix E w r w'
  assume "main E w = (r, w')"
  then have run: "run E website files w = (r, w')" by (simp add: main_def)
  from run_requests [OF run] obtain j where j: "j \<le> length files"
    "requests w' = requests w @ map ((@) website) (take j files)"
    "r = None \<longrightarrow> j = length files"
    "(\<exists>e. r = Some (DirectoryCreationError e)) \<longrightarrow> j = 0"
    by blast
  have first: "1 \<le> j" if nd: "\<forall>e. r \<noteq> Some (DirectoryCreationError e)"
  proof -
    let ?w1 = "w\<lparr>fs := (fs w)(cwd E @ [''imgs''] \<mapsto> Dir)\<rparr>"
    have l: "download_loop E website files ?w1 = (r, w')"
      using run_cases [OF run] nd by (auto split: if_splits)
    obtain f rest where fr: "files = f # rest"
      using files_length by (cases files) auto
    obtain r1 w1 where u: "urlretrieve E (website @ f) (path_join ''imgs'' f) ?w1 = (r1, w1)"
      by (cases "urlretrieve E (website @ f) (path_join ''imgs'' f) ?w1")
    have q1: "requests w1 = requests w @ [website @ f]"
      using urlretrieve_requests [OF u] by simp
    have l': "download_loop E website (f # rest) ?w1 = (r, w')"
      using l by (simp only: fr)
    have "\<exists>k. requests w' = requests w1 @ k"
    proof (cases r1)
      case None
      then have "download_loop E website rest w1 = (r, w')"
        using l' u by simp
      from download_loop_requests [OF this] show ?thesis by blast
    next
      case (Some e)
      then have "w' = w1" using l' u by simp
      then show ?thesis by simp
    qed
    then have "requests w' \<noteq> requests w" using q1 by auto
    then have "j \<noteq> 0" using j(2) by auto
    then show ?thesis by simp
  qed
  show "\<exists>j\<le>30. requests w' = requests w @ take j (map ((@) website) files)
           \<and> (r = None \<longrightarrow> j = 30)
           \<and> ((\<exists>e. r = Some (DirectoryCreationError e)) \<longrightarrow> j = 0)
           \<and> ((\<forall>e. r \<noteq> Some (DirectoryCreationError e)) \<longrightarrow> 1 \<le> j)"
    using j first by (intro exI [of _ j]) (simp add: files_length take_map)
next
  fix E :: env and w :: world
  assume "wf_fs (fs w) \<and> fs w (cwd E) = Some Dir \<and> fs w (cwd E @ [''imgs'']) = None
          \<and> (\<forall>i<30. \<exists>body.
                net E (length (requests w) + i) (website @ files ! i) = Served body)"
  then have "\<exists>w'. main E w = (None, w')"
    using main_succeeds [of w E] by (simp add: files_length)
  then show "fst (main E w) = None" by auto
qed

theorem request_sequence_witness:
  "requests (snd (main env_served \<lparr>fs = fs_fresh, requests = []\<rparr>)) = map ((@) website) files
   \<and> requests (snd (main env_served \<lparr>fs = fs_second, requests = []\<rparr>)) = []
   \<and> requests (snd (main env_refused \<lparr>fs = fs_fresh, requests = []\<rparr>))
       = [''https://monstermash.zone/imgs/example-antelope.jpg'']"
proof -
  let ?w = "\<lparr>fs = fs_fresh, requests = []\<rparr>"
  let ?m = "main env_served ?w"
  note t = request_sequence [THEN conjunct2, THEN conjunct1, rule_format]
  have h: "?m = (fst ?m, snd ?m)" by simp
  have n: "fst ?m = None" using main_served_fresh by auto
  from t [OF h] n have a: "requests (snd ?m) = map ((@) website) files"
    by (auto simp: files_length)
  let ?v = "\<lparr>fs = fs_second, requests = []\<rparr>"
  let ?m2 = "main env_served ?v"
  have h2: "?m2 = (fst ?m2, snd ?m2)" by simp
  have n2: "fst ?m2 = Some (DirectoryCreationError FileExistsError)"
    by (simp add: main_def run_def makedirs_imgs_eq env_served_def fs_second_def)
  from t [OF h2] n2 have b: "requests (snd ?m2) = []" by auto
  have c: "requests (snd (main env_refused ?w))
       = [''https://monstermash.zone/imgs/example-antelope.jpg'']"
    by (simp add: main_def run_def makedirs_imgs_eq env_refused_def fs_fresh_def files_def
        website_def urlretrieve_def)
  show ?thesis using a b c by simp
qed

end
